theory Spec2Isabelle
  imports Main
begin

section \<open>Data model of the gesture recognizer\<close>

text \<open>
  The module \<^verbatim>\<open>action-handler-directive.ts\<close> defines the custom element
  \<^verbatim>\<open>action-handler-bar\<close> (class \<^verbatim>\<open>ActionHandler\<close>), of which one instance lives in
  the document body. Its fields, the listeners it registers, the browser's timer queue and the
  notifications it dispatches are the state of the model. Times are milliseconds, DOM elements
  are identified by a number, page coordinates are whole pixels.
\<close>

type_synonym element = nat

text \<open>The interface \<^verbatim>\<open>ActionHandlerOptions\<close>: both fields are optional booleans.\<close>

record ActionHandlerOptions =
  hasHold :: "bool option"
  hasDoubleClick :: "bool option"

text \<open>JavaScript truthiness of an optional boolean: \<^verbatim>\<open>undefined\<close> and \<^verbatim>\<open>false\<close> are falsy.\<close>

fun truthy :: "bool option \<Rightarrow> bool" where
  "truthy None = False"
| "truthy (Some b) = b"

text \<open>
  The fields of a DOM event that the handlers read. \<open>touches\<close> is \<open>None\<close> where the event
  has no \<^verbatim>\<open>touches\<close> property (mouse and keyboard events); otherwise it lists the page
  coordinates of the touch points.
\<close>

record dom_event =
  ev_type :: string
  detail :: int
  keyCode :: int
  touches :: "(int \<times> int) list option"
  pageX :: int
  pageY :: int

text \<open>
  The functions passed to \<^verbatim>\<open>window.setTimeout\<close>, one constructor per arrow function of
  the source, with the variables each closure captures.
\<close>

datatype callback =
    HoldFire int int
  | CooldownStartReset
  | CooldownEndReset
  | TapFire element

datatype pending_timer = Timer (tid: nat) (due: nat) (cb: callback)

text \<open>
  The listeners \<^verbatim>\<open>bind\<close> attaches to an element: the anonymous \<^verbatim>\<open>contextmenu\<close>
  handler and the closures \<^verbatim>\<open>clickStart\<close>, \<^verbatim>\<open>clickEnd\<close>, \<^verbatim>\<open>handleEnter\<close>; the last two
  capture \<^verbatim>\<open>element\<close> and \<^verbatim>\<open>options\<close>.
\<close>

datatype listener =
    ContextMenu
  | ClickStart
  | ClickEnd element ActionHandlerOptions
  | HandleEnter element ActionHandlerOptions

text \<open>The one listener \<^verbatim>\<open>connectedCallback\<close> registers on the document.\<close>

datatype doc_listener = CancelHold

record element_rec =
  actionHandler :: "bool option"
  listeners :: "(string \<times> listener) list"

text \<open>
  The inline style of the sensor element: the properties the source assigns.
  \<open>display = None\<close> is the value \<^verbatim>\<open>null\<close> (the property is unset, the element shows).
\<close>

record style_rec =
  position :: string
  width :: string
  height :: string
  transform :: string
  pointerEvents :: string
  left :: "int option"
  top :: "int option"
  display :: "string option"

text \<open>
  A custom event dispatched by \<^verbatim>\<open>fireEvent(node, type, detail)\<close>: when, on which
  element, the event type and the detail object as its list of fields.
\<close>

datatype notification =
  Notification (at: nat) (target: element) (name: string) (payload: "(string \<times> string) list")

record page =
  holdTime :: nat
  timer :: "nat option"
  held :: bool
  cooldownStart :: bool
  cooldownEnd :: bool
  dblClickTimeout :: "nat option"
  style :: style_rec
  userAgent :: string
  ontouchstart :: bool
  maxTouchPoints :: int
  in_body :: bool
  doc_listeners :: "(string \<times> doc_listener) list"
  elements :: "element \<Rightarrow> element_rec"
  timers :: "pending_timer list"
  next_id :: nat
  now :: nat
  dispatched :: "notification list"

section \<open>Browser primitives\<close>

text \<open>
  \<^verbatim>\<open>window.setTimeout(f, delay)\<close> queues \<open>f\<close> for the time \<open>now + delay\<close> and returns a
  fresh handle; \<^verbatim>\<open>clearTimeout(h)\<close> removes the timer with that handle and does nothing
  for \<^verbatim>\<open>undefined\<close> or a handle that is no longer queued. \<^verbatim>\<open>fireEvent\<close>, imported from
  the library \<^verbatim>\<open>custom-card-helpers\<close>, dispatches a custom event on a node: the model
  records it, with the time, in the list of dispatched notifications.
\<close>

definition setTimeout :: "callback \<Rightarrow> nat \<Rightarrow> page \<Rightarrow> nat \<times> page" where
  "setTimeout f delay s =
     (next_id s,
      s\<lparr>timers := timers s @ [Timer (next_id s) (now s + delay) f],
        next_id := Suc (next_id s)\<rparr>)"

definition clearTimeout :: "nat option \<Rightarrow> page \<Rightarrow> page" where
  "clearTimeout h s =
     (case h of
        None \<Rightarrow> s
      | Some i \<Rightarrow> s\<lparr>timers := filter (\<lambda>t. tid t \<noteq> i) (timers s)\<rparr>)"

definition fireEvent :: "element \<Rightarrow> string \<Rightarrow> (string \<times> string) list \<Rightarrow> page \<Rightarrow> page" where
  "fireEvent node ty det s =
     s\<lparr>dispatched := dispatched s @ [Notification (now s) node ty det]\<rparr>"

definition addEventListener :: "element \<Rightarrow> string \<Rightarrow> listener \<Rightarrow> page \<Rightarrow> page" where
  "addEventListener el ty h s =
     s\<lparr>elements := (elements s)
          (el := (elements s el)\<lparr>listeners := listeners (elements s el) @ [(ty, h)]\<rparr>)\<rparr>"

text \<open>The test \<^verbatim>\<open>/iPhone OS 13_/.test(userAgent)\<close>: the pattern occurs somewhere in the string.\<close>

fun starts_with :: "string \<Rightarrow> string \<Rightarrow> bool" where
  "starts_with [] s = True"
| "starts_with (p # ps) [] = False"
| "starts_with (p # ps) (c # cs) = (p = c \<and> starts_with ps cs)"

fun regex_test :: "string \<Rightarrow> string \<Rightarrow> bool" where
  "regex_test p [] = starts_with p []"
| "regex_test p (c # cs) = (starts_with p (c # cs) \<or> regex_test p cs)"

definition isIOS13 :: "page \<Rightarrow> bool" where
  "isIOS13 s = regex_test ''iPhone OS 13_'' (userAgent s)"

definition isTouch :: "page \<Rightarrow> bool" where
  "isTouch s = (ontouchstart s \<or> maxTouchPoints s > 0)"

section \<open>The class ActionHandler\<close>

definition startAnimation :: "int \<Rightarrow> int \<Rightarrow> page \<Rightarrow> page" where
  "startAnimation x y s = s\<lparr>style := (style s)\<lparr>left := Some x, top := Some y, display := None\<rparr>\<rparr>"

definition stopAnimation :: "page \<Rightarrow> page" where
  "stopAnimation s = s\<lparr>style := (style s)\<lparr>display := Some ''none''\<rparr>\<rparr>"

text \<open>The constructor; \<^verbatim>\<open>dblClickTimeout\<close> is declared without a value, the style is empty.\<close>

definition empty_style :: style_rec where
  "empty_style =
     \<lparr>position = '''', width = '''', height = '''', transform = '''', pointerEvents = '''',
      left = None, top = None, display = None\<rparr>"

definition constructor :: "page \<Rightarrow> page" where
  "constructor s =
     s\<lparr>holdTime := 500, timer := None, held := False, cooldownStart := False,
       cooldownEnd := False, dblClickTimeout := None, style := empty_style\<rparr>"

definition cancel_actions :: "string list" where
  "cancel_actions =
     [''touchcancel'', ''mouseout'', ''mouseup'', ''touchmove'', ''mousewheel'', ''wheel'',
      ''scroll'']"

definition connectedCallback :: "page \<Rightarrow> page" where
  "connectedCallback s =
     (let s1 = s\<lparr>style := (style s)
                 \<lparr>position := ''absolute'',
                  width := (if isTouch s then ''100px'' else ''50px''),
                  height := (if isTouch s then ''100px'' else ''50px''),
                  transform := ''translate(-50%, -50%)'',
                  pointerEvents := ''none''\<rparr>\<rparr>
      in fold (\<lambda>ev t. t\<lparr>doc_listeners := doc_listeners t @ [(ev, CancelHold)]\<rparr>)
           cancel_actions s1)"

text \<open>The body of the document listener.\<close>

definition cancelHold :: "page \<Rightarrow> page" where
  "cancelHold s = (stopAnimation (clearTimeout (timer s) s))\<lparr>timer := None\<rparr>"

text \<open>
  The coordinates \<^verbatim>\<open>clickStart\<close> reads. A \<^verbatim>\<open>touches\<close> list is truthy even when empty,
  and then \<^verbatim>\<open>touches[0].pageX\<close> throws a TypeError: \<open>None\<close>.
\<close>

definition coords :: "dom_event \<Rightarrow> (int \<times> int) option" where
  "coords ev =
     (case touches ev of
        Some [] \<Rightarrow> None
      | Some (p # ps) \<Rightarrow> Some p
      | None \<Rightarrow> Some (pageX ev, pageY ev))"

text \<open>
  \<^verbatim>\<open>clickStart\<close>. Where the coordinates throw, the listener ends there and the
  assignment \<^verbatim>\<open>this.held = false\<close> before it stays.
\<close>

definition clickStart :: "page \<Rightarrow> dom_event \<Rightarrow> page" where
  "clickStart s ev =
     (if cooldownStart s then s
      else
        let s1 = s\<lparr>held := False\<rparr> in
        case coords ev of
          None \<Rightarrow> s1
        | Some (x, y) \<Rightarrow>
            let (h, s2) = setTimeout (HoldFire x y) (holdTime s1) s1;
                s3 = s2\<lparr>timer := Some h\<rparr>;
                s4 = s3\<lparr>cooldownStart := True\<rparr>
            in snd (setTimeout CooldownStartReset 100 s4))"

definition clickEnd :: "element \<Rightarrow> ActionHandlerOptions \<Rightarrow> page \<Rightarrow> dom_event \<Rightarrow> page" where
  "clickEnd el opts s ev =
     (if cooldownEnd s \<or> (ev_type ev \<in> set [''touchend'', ''touchcancel''] \<and> timer s = None)
      then s
      else
        let s1 = clearTimeout (timer s) s;
            s2 = stopAnimation s1;
            s3 = s2\<lparr>timer := None\<rparr>;
            s4 =
              (if held s3 then fireEvent el ''action'' [(''action'', ''hold'')] s3
               else if truthy (hasDoubleClick opts) then
                 (if detail ev = 1 \<or> ev_type ev = ''keyup'' then
                    (let (h, t) = setTimeout (TapFire el) 250 s3
                     in t\<lparr>dblClickTimeout := Some h\<rparr>)
                  else
                    fireEvent el ''action'' [(''action'', ''double_tap'')]
                      (clearTimeout (dblClickTimeout s3) s3))
               else fireEvent el ''action'' [(''action'', ''tap'')] s3);
            s5 = s4\<lparr>cooldownEnd := True\<rparr>
        in snd (setTimeout CooldownEndReset 100 s5))"

definition handleEnter :: "element \<Rightarrow> ActionHandlerOptions \<Rightarrow> page \<Rightarrow> dom_event \<Rightarrow> page" where
  "handleEnter el opts s ev = (if keyCode ev = 13 then clickEnd el opts s ev else s)"

definition bind :: "element \<Rightarrow> ActionHandlerOptions \<Rightarrow> page \<Rightarrow> page" where
  "bind el opts s =
     (if truthy (actionHandler (elements s el)) then s
      else
        let s1 = s\<lparr>elements := (elements s)(el := (elements s el)\<lparr>actionHandler := Some True\<rparr>)\<rparr>;
            s2 = addEventListener el ''contextmenu'' ContextMenu s1;
            s3 = addEventListener el ''touchstart'' ClickStart s2;
            s4 = addEventListener el ''touchend'' (ClickEnd el opts) s3;
            s5 = addEventListener el ''touchcancel'' (ClickEnd el opts) s4;
            s6 = addEventListener el ''keyup'' (HandleEnter el opts) s5
        in if \<not> isIOS13 s6
           then addEventListener el ''click'' (ClickEnd el opts)
                  (addEventListener el ''mousedown'' ClickStart s6)
           else s6)"

text \<open>
  \<^verbatim>\<open>getActionHandler\<close>: the sensor element found in the body, or a new one, constructed
  and appended (which runs \<^verbatim>\<open>connectedCallback\<close>).
\<close>

definition getActionHandler :: "page \<Rightarrow> page" where
  "getActionHandler s =
     (if in_body s then s else connectedCallback ((constructor s)\<lparr>in_body := True\<rparr>))"

definition actionHandlerBind :: "element \<Rightarrow> ActionHandlerOptions \<Rightarrow> page \<Rightarrow> page" where
  "actionHandlerBind el opts s = bind el opts (getActionHandler s)"

section \<open>Running the page\<close>

text \<open>What a queued timer function does when the browser calls it.\<close>

fun run_callback :: "callback \<Rightarrow> page \<Rightarrow> page" where
  "run_callback (HoldFire x y) s = (startAnimation x y s)\<lparr>held := True\<rparr>"
| "run_callback CooldownStartReset s = s\<lparr>cooldownStart := False\<rparr>"
| "run_callback CooldownEndReset s = s\<lparr>cooldownEnd := False\<rparr>"
| "run_callback (TapFire el) s = fireEvent el ''action'' [(''action'', ''tap'')] s"

text \<open>
  What a listener of an element does with an event. The \<^verbatim>\<open>contextmenu\<close> handler only
  marks the event (default prevented, propagation stopped).
\<close>

fun run_listener :: "listener \<Rightarrow> page \<Rightarrow> dom_event \<Rightarrow> page" where
  "run_listener ContextMenu s ev = s"
| "run_listener ClickStart s ev = clickStart s ev"
| "run_listener (ClickEnd el opts) s ev = clickEnd el opts s ev"
| "run_listener (HandleEnter el opts) s ev = handleEnter el opts s ev"

fun run_doc_listener :: "doc_listener \<Rightarrow> page \<Rightarrow> page" where
  "run_doc_listener CancelHold s = cancelHold s"

text \<open>
  An event on an element calls the listeners registered there for its type, in the order
  of registration; likewise on the document.
\<close>

definition dispatchEvent :: "element \<Rightarrow> dom_event \<Rightarrow> page \<Rightarrow> page" where
  "dispatchEvent el ev s =
     fold (\<lambda>(ty, h) t. if ty = ev_type ev then run_listener h t ev else t)
       (listeners (elements s el)) s"

definition dispatchDocument :: "string \<Rightarrow> page \<Rightarrow> page" where
  "dispatchDocument ty s =
     fold (\<lambda>(ty', h) t. if ty' = ty then run_doc_listener h t else t) (doc_listeners s) s"

text \<open>
  The timer queue: the next timer to run before time \<open>t\<close> is the one with the least due time
  not after \<open>t\<close>, the earliest queued among equals.
\<close>

fun next_due :: "nat \<Rightarrow> pending_timer list \<Rightarrow> pending_timer option" where
  "next_due t [] = None"
| "next_due t (x # xs) =
     (case next_due t xs of
        None \<Rightarrow> (if due x \<le> t then Some x else None)
      | Some y \<Rightarrow> (if due x \<le> due y then Some x else Some y))"

lemma next_due_mem: "next_due t xs = Some x \<Longrightarrow> x \<in> set xs"
  by (induction xs arbitrary: x) (auto split: option.splits if_splits)

lemma timers_run_callback: "timers (run_callback c s) = timers s"
  by (cases c) (simp_all add: startAnimation_def fireEvent_def)

text \<open>
  Letting time pass until \<open>t\<close>: the due timers run one after the other, each at its due time
  (or at once when it is overdue), and leave the queue as they run.
\<close>

function run_timers :: "nat \<Rightarrow> page \<Rightarrow> page" where
  "run_timers t s =
     (case next_due t (timers s) of
        None \<Rightarrow> s
      | Some x \<Rightarrow>
          run_timers t
            (run_callback (cb x) (s\<lparr>timers := remove1 x (timers s), now := max (now s) (due x)\<rparr>)))"
  by pat_completeness auto
termination
proof (relation "measure (\<lambda>(t, s). length (timers s))")
  show "wf (measure (\<lambda>(t, s). length (timers s)))" by simp
next
  fix t :: nat and s :: page and x
  assume "next_due t (timers s) = Some x"
  then have "x \<in> set (timers s)" by (rule next_due_mem)
  then have "length (remove1 x (timers s)) < length (timers s)"
    by (simp add: length_remove1) (cases "timers s", auto)
  then show "((t, run_callback (cb x)
                 (s\<lparr>timers := remove1 x (timers s), now := max (now s) (due x)\<rparr>)), (t, s))
             \<in> measure (\<lambda>(t, s). length (timers s))"
    by (simp add: timers_run_callback)
qed

declare run_timers.simps [simp del]

definition advance :: "nat \<Rightarrow> page \<Rightarrow> page" where
  "advance d s = (let t = now s + d; s1 = run_timers t s in s1\<lparr>now := max (now s1) t\<rparr>)"

text \<open>
  What happens to the page: time passes, an event arrives on an element or on the document,
  or the host calls \<^verbatim>\<open>actionHandlerBind\<close>. An event that bubbles from an element to the
  document is the input on the element followed by the input on the document.
\<close>

datatype input =
    Wait nat
  | Fire element dom_event
  | DocFire string
  | BindCall element ActionHandlerOptions

fun step :: "page \<Rightarrow> input \<Rightarrow> page" where
  "step s (Wait d) = advance d s"
| "step s (Fire el ev) = dispatchEvent el ev s"
| "step s (DocFire ty) = dispatchDocument ty s"
| "step s (BindCall el opts) = actionHandlerBind el opts s"

definition run :: "page \<Rightarrow> input list \<Rightarrow> page" where
  "run s ins = foldl step s ins"

text \<open>
  A freshly loaded page: no sensor element in the body, no listeners, no timers. Timer
  handles start at 1.
\<close>

definition page0 :: "string \<Rightarrow> bool \<Rightarrow> int \<Rightarrow> page" where
  "page0 ua ots mtp =
     \<lparr>holdTime = 0, timer = None, held = False, cooldownStart = False, cooldownEnd = False,
      dblClickTimeout = None, style = empty_style,
      userAgent = ua, ontouchstart = ots, maxTouchPoints = mtp,
      in_body = False, doc_listeners = [],
      elements = (\<lambda>e. \<lparr>actionHandler = None, listeners = []\<rparr>),
      timers = [], next_id = 1, now = 0, dispatched = []\<rparr>"

section \<open>Notions used in the statements\<close>

text \<open>The listeners one call of \<^verbatim>\<open>bind\<close> attaches, in the order of attachment.\<close>

definition bound_listeners :: "bool \<Rightarrow> element \<Rightarrow> ActionHandlerOptions \<Rightarrow> (string \<times> listener) list" where
  "bound_listeners ios el opts =
     [(''contextmenu'', ContextMenu), (''touchstart'', ClickStart),
      (''touchend'', ClickEnd el opts), (''touchcancel'', ClickEnd el opts),
      (''keyup'', HandleEnter el opts)]
     @ (if ios then [] else [(''mousedown'', ClickStart), (''click'', ClickEnd el opts)])"

text \<open>
  An element is wired when it carries the marker and its listeners are those of one binding
  with the given options.
  A press-start is an event of a type that \<^verbatim>\<open>bind\<close> routes to \<^verbatim>\<open>clickStart\<close>, a
  press-end one of a type it routes to \<^verbatim>\<open>clickEnd\<close>; on iOS 13 the mouse events are
  not listened for. The recognizer is idle when no timer is queued and neither cooldown is on.
\<close>

definition wired :: "page \<Rightarrow> element \<Rightarrow> ActionHandlerOptions \<Rightarrow> bool" where
  "wired s el opts =
     (truthy (actionHandler (elements s el)) \<and>
      listeners (elements s el) = bound_listeners (isIOS13 s) el opts)"

definition press_start :: "page \<Rightarrow> dom_event \<Rightarrow> bool" where
  "press_start s ev =
     (ev_type ev = ''touchstart'' \<or> (ev_type ev = ''mousedown'' \<and> \<not> isIOS13 s))"

definition press_end :: "page \<Rightarrow> dom_event \<Rightarrow> bool" where
  "press_end s ev =
     (ev_type ev = ''touchend'' \<or> ev_type ev = ''touchcancel'' \<or>
      (ev_type ev = ''click'' \<and> \<not> isIOS13 s))"

definition idle :: "page \<Rightarrow> bool" where
  "idle s = (timers s = [] \<and> \<not> cooldownStart s \<and> \<not> cooldownEnd s)"




text \<open>The kinds of queued timer functions.\<close>

fun is_hold :: "callback \<Rightarrow> bool" where
  "is_hold (HoldFire x y) = True"
| "is_hold c = False"

fun is_tap :: "callback \<Rightarrow> bool" where
  "is_tap (TapFire el) = True"
| "is_tap c = False"

text \<open>
  The page after a press-start on a wired element of an idle recognizer, and what the
  following wait leaves of it.
\<close>

definition pressed :: "page \<Rightarrow> int \<Rightarrow> int \<Rightarrow> page" where
  "pressed s x y =
     s\<lparr>held := False, timer := Some (next_id s), cooldownStart := True,
       timers := [Timer (next_id s) (now s + 500) (HoldFire x y),
                  Timer (Suc (next_id s)) (now s + 100) CooldownStartReset],
       next_id := Suc (Suc (next_id s))\<rparr>"

section \<open>Sample inputs\<close>

text \<open>Events and pages used to instantiate the theorems below.\<close>

definition mouse_event :: "string \<Rightarrow> int \<Rightarrow> dom_event" where
  "mouse_event ty n =
     \<lparr>ev_type = ty, detail = n, keyCode = 0, touches = None, pageX = 40, pageY = 30\<rparr>"

definition touch_event :: "string \<Rightarrow> (int \<times> int) list \<Rightarrow> dom_event" where
  "touch_event ty ps =
     \<lparr>ev_type = ty, detail = 0, keyCode = 0, touches = Some ps, pageX = 0, pageY = 0\<rparr>"

definition key_event :: "int \<Rightarrow> dom_event" where
  "key_event code =
     \<lparr>ev_type = ''keyup'', detail = 0, keyCode = code, touches = None, pageX = 0, pageY = 0\<rparr>"

definition single_click :: ActionHandlerOptions where
  "single_click = \<lparr>hasHold = None, hasDoubleClick = None\<rparr>"

definition double_click :: ActionHandlerOptions where
  "double_click = \<lparr>hasHold = None, hasDoubleClick = Some True\<rparr>"

definition desktop :: page where
  "desktop = page0 ''Mozilla/5.0 (X11; Linux x86_64)'' False 0"

text \<open>
  The document is wired for cancellation when its listeners are the ones
  \<^verbatim>\<open>connectedCallback\<close> registers. The \<^verbatim>\<open>hold\<close> notifications of a list of notifications.
\<close>

definition cancel_wired :: "page \<Rightarrow> bool" where
  "cancel_wired s = (doc_listeners s = map (\<lambda>a. (a, CancelHold)) cancel_actions)"

definition hold_notes :: "notification list \<Rightarrow> notification list" where
  "hold_notes ns = filter (\<lambda>n. payload n = [(''action'', ''hold'')]) ns"

text \<open>Inputs that are no event on an element: time passing and events on the document.\<close>

fun is_passive :: "input \<Rightarrow> bool" where
  "is_passive (Wait d) = True"
| "is_passive (DocFire ty) = True"
| "is_passive i = False"

text \<open>
  A notification of the recognizer: an \<^verbatim>\<open>action\<close> event whose detail has the single field
  \<^verbatim>\<open>action\<close> with one of three values. A page \<open>s'\<close> extends the notifications of a page \<open>s\<close>
  by such notifications only.
\<close>

definition action_note :: "notification \<Rightarrow> bool" where
  "action_note n =
     (name n = ''action'' \<and>
      (payload n = [(''action'', ''tap'')] \<or> payload n = [(''action'', ''hold'')] \<or>
       payload n = [(''action'', ''double_tap'')]))"

definition emits :: "page \<Rightarrow> page \<Rightarrow> bool" where
  "emits s s' = (\<exists>ns. dispatched s' = dispatched s @ ns \<and> (\<forall>n\<in>set ns. action_note n))"

text \<open>
  The time that passes during a list of inputs. The number of queued timers whose function
  satisfies a predicate. A page is in order when at most one reset of each cooldown flag is
  queued, none when the flag is off, when it has no timers and no listeners as long as the
  sensor element does not exist, and when the hold time is the constructor's 500ms once it
  does.
\<close>

fun elapsed :: "input list \<Rightarrow> nat" where
  "elapsed [] = 0"
| "elapsed (Wait d # ins) = d + elapsed ins"
| "elapsed (i # ins) = elapsed ins"

definition count_timers :: "(callback \<Rightarrow> bool) \<Rightarrow> page \<Rightarrow> nat" where
  "count_timers P s = length (filter (\<lambda>x. P (cb x)) (timers s))"

definition cooldowns_ok :: "page \<Rightarrow> bool" where
  "cooldowns_ok s =
     ((if cooldownStart s then count_timers (\<lambda>c. c = CooldownStartReset) s \<le> 1
       else count_timers (\<lambda>c. c = CooldownStartReset) s = 0) \<and>
      (if cooldownEnd s then count_timers (\<lambda>c. c = CooldownEndReset) s \<le> 1
       else count_timers (\<lambda>c. c = CooldownEndReset) s = 0))"

definition page_ok :: "page \<Rightarrow> bool" where
  "page_ok s =
     (cooldowns_ok s \<and>
      (\<not> in_body s \<longrightarrow> timers s = [] \<and> (\<forall>e. listeners (elements s e) = [])) \<and>
      (in_body s \<longrightarrow> holdTime s = 500))"

text \<open>
  The start cooldown lasts until \<open>D\<close> on a page: the flag is on, every queued reset of it
  is due at \<open>D\<close> or later, and at most \<open>N\<close> hold timers are queued. Likewise for the end
  cooldown.
\<close>

definition start_cooling :: "nat \<Rightarrow> nat \<Rightarrow> page \<Rightarrow> bool" where
  "start_cooling D N s =
     (cooldownStart s \<and> in_body s \<and>
      (\<forall>x\<in>set (timers s). cb x = CooldownStartReset \<longrightarrow> D \<le> due x) \<and>
      count_timers is_hold s \<le> N)"

definition end_cooling :: "nat \<Rightarrow> page \<Rightarrow> bool" where
  "end_cooling D s =
     (cooldownEnd s \<and> in_body s \<and>
      (\<forall>x\<in>set (timers s). cb x = CooldownEndReset \<longrightarrow> D \<le> due x))"

text \<open>Inputs that only let time pass.\<close>

fun is_wait :: "input \<Rightarrow> bool" where
  "is_wait (Wait d) = True"
| "is_wait i = False"

section \<open>Binding\<close>

lemma bind_marked: "truthy (actionHandler (elements s el)) \<Longrightarrow> bind el opts s = s"
  by (simp add: bind_def)

lemma marker_addEventListener:
  "actionHandler (elements (addEventListener el ty h s) e) = actionHandler (elements s e)"
  by (simp add: addEventListener_def)

lemma listeners_addEventListener:
  "listeners (elements (addEventListener el ty h s) e) =
     (if e = el then listeners (elements s e) @ [(ty, h)] else listeners (elements s e))"
  by (simp add: addEventListener_def)

lemma isIOS13_update [simp]:
  "isIOS13 (s\<lparr>holdTime := a1\<rparr>) = isIOS13 s"
  "isIOS13 (s\<lparr>timer := a2\<rparr>) = isIOS13 s"
  "isIOS13 (s\<lparr>held := a3\<rparr>) = isIOS13 s"
  "isIOS13 (s\<lparr>cooldownStart := a4\<rparr>) = isIOS13 s"
  "isIOS13 (s\<lparr>cooldownEnd := a5\<rparr>) = isIOS13 s"
  "isIOS13 (s\<lparr>dblClickTimeout := a6\<rparr>) = isIOS13 s"
  "isIOS13 (s\<lparr>style := a7\<rparr>) = isIOS13 s"
  "isIOS13 (s\<lparr>in_body := a8\<rparr>) = isIOS13 s"
  "isIOS13 (s\<lparr>doc_listeners := a9\<rparr>) = isIOS13 s"
  "isIOS13 (s\<lparr>elements := a10\<rparr>) = isIOS13 s"
  "isIOS13 (s\<lparr>timers := a11\<rparr>) = isIOS13 s"
  "isIOS13 (s\<lparr>next_id := a12\<rparr>) = isIOS13 s"
  "isIOS13 (s\<lparr>now := a13\<rparr>) = isIOS13 s"
  "isIOS13 (s\<lparr>dispatched := a14\<rparr>) = isIOS13 s"
  by (simp_all add: isIOS13_def)

lemma isIOS13_addEventListener: "isIOS13 (addEventListener el ty h s) = isIOS13 s"
  by (simp add: addEventListener_def)

lemma bind_marks: "truthy (actionHandler (elements (bind el opts s) el))"
  by (simp add: bind_def Let_def marker_addEventListener)

lemma bind_listeners:
  "\<not> truthy (actionHandler (elements s el)) \<Longrightarrow>
   listeners (elements (bind el opts s) el) =
     listeners (elements s el) @ bound_listeners (isIOS13 s) el opts"
  by (simp add: bind_def Let_def listeners_addEventListener isIOS13_addEventListener
      bound_listeners_def)

lemma bind_twice: "bind el opts' (bind el opts s) = bind el opts s"
  using bind_marks [of el opts s] by (rule bind_marked)

lemma in_body_addEventListener: "in_body (addEventListener el ty h s) = in_body s"
  by (simp add: addEventListener_def)

lemma in_body_bind: "in_body (bind el opts s) = in_body s"
  by (simp add: bind_def Let_def in_body_addEventListener)

lemma in_body_getActionHandler: "in_body (getActionHandler s)"
  by (simp add: getActionHandler_def connectedCallback_def cancel_actions_def)

lemma getActionHandler_in_body: "in_body s \<Longrightarrow> getActionHandler s = s"
  by (simp add: getActionHandler_def)

lemma actionHandlerBind_twice:
  "actionHandlerBind el opts' (actionHandlerBind el opts s) = actionHandlerBind el opts s"
proof -
  have "in_body (bind el opts (getActionHandler s))"
    by (simp add: in_body_bind in_body_getActionHandler)
  then show ?thesis
    by (simp add: actionHandlerBind_def getActionHandler_in_body bind_twice)
qed

text \<open>
  C4. \<^verbatim>\<open>bind\<close> is idempotent. On an element that carries the marker it returns the page
  as it is: no listener attached, nothing changed. On an element without the marker it sets the
  marker and appends exactly the listeners of one binding to the element's listeners. Hence a
  second \<^verbatim>\<open>bind\<close> of the same element, with any options, changes nothing, and the same
  holds for the exported \<^verbatim>\<open>actionHandlerBind\<close>.
\<close>

theorem bind_idempotent:
  "(truthy (actionHandler (elements s el)) \<longrightarrow> bind el opts s = s) \<and>
   (\<not> truthy (actionHandler (elements s el)) \<longrightarrow>
      truthy (actionHandler (elements (bind el opts s) el)) \<and>
      listeners (elements (bind el opts s) el) =
        listeners (elements s el) @ bound_listeners (isIOS13 s) el opts) \<and>
   bind el opts' (bind el opts s) = bind el opts s \<and>
   actionHandlerBind el opts' (actionHandlerBind el opts s) = actionHandlerBind el opts s"
  by (simp add: bind_marked bind_marks bind_listeners bind_twice actionHandlerBind_twice)

theorem bind_idempotent_witness:
  "\<not> truthy (actionHandler (elements (page0 ''Mozilla/5.0'' False 0) 7)) \<and>
   truthy (actionHandler (elements
     (bind 7 \<lparr>hasHold = None, hasDoubleClick = Some True\<rparr> (page0 ''Mozilla/5.0'' False 0)) 7)) \<and>
   length (listeners (elements
     (bind 7 \<lparr>hasHold = None, hasDoubleClick = Some True\<rparr> (page0 ''Mozilla/5.0'' False 0)) 7)) = 7 \<and>
   length (listeners (elements
     (bind 7 \<lparr>hasHold = Some True, hasDoubleClick = None\<rparr>
       (bind 7 \<lparr>hasHold = None, hasDoubleClick = Some True\<rparr> (page0 ''Mozilla/5.0'' False 0))) 7)) = 7"
  using bind_idempotent [of "page0 ''Mozilla/5.0'' False 0" 7
      "\<lparr>hasHold = None, hasDoubleClick = Some True\<rparr>" "\<lparr>hasHold = Some True, hasDoubleClick = None\<rparr>"]
  by (simp add: page0_def bound_listeners_def isIOS13_def)

section \<open>Routing of events\<close>

lemma dispatch_press_start:
  "wired s el opts \<Longrightarrow> press_start s ev \<Longrightarrow> dispatchEvent el ev s = clickStart s ev"
  unfolding press_start_def
  by (elim disjE conjE; simp add: wired_def dispatchEvent_def bound_listeners_def)

lemma dispatch_press_end:
  "wired s el opts \<Longrightarrow> press_end s ev \<Longrightarrow> dispatchEvent el ev s = clickEnd el opts s ev"
  unfolding press_end_def
  by (elim disjE conjE; simp add: wired_def dispatchEvent_def bound_listeners_def clickEnd_def)

lemma dispatch_keyup:
  "wired s el opts \<Longrightarrow> ev_type ev = ''keyup'' \<Longrightarrow> dispatchEvent el ev s = handleEnter el opts s ev"
  by (simp add: wired_def dispatchEvent_def bound_listeners_def)



section \<open>The timer queue\<close>

lemma next_due_None_iff: "next_due t xs = None \<longleftrightarrow> (\<forall>x\<in>set xs. t < due x)"
  by (induction xs) (auto split: option.splits if_splits)

lemma next_due_Some:
  "next_due t xs = Some x \<Longrightarrow> x \<in> set xs \<and> due x \<le> t \<and> (\<forall>y\<in>set xs. due x \<le> due y \<or> t < due y)"
proof (induction xs arbitrary: x)
  case Nil
  then show ?case by simp
next
  case (Cons a xs)
  show ?case
  proof (cases "next_due t xs")
    case None
    then have "\<forall>y\<in>set xs. t < due y" by (simp add: next_due_None_iff)
    with Cons.prems None show ?thesis by (auto split: if_splits)
  next
    case (Some y)
    from Cons.IH [OF Some] Cons.prems Some show ?thesis
      by (auto split: if_splits)
  qed
qed

lemma run_timers_none: "next_due t (timers s) = None \<Longrightarrow> run_timers t s = s"
  by (subst run_timers.simps) simp

lemma run_timers_some:
  "next_due t (timers s) = Some x \<Longrightarrow>
   run_timers t s =
     run_timers t
       (run_callback (cb x) (s\<lparr>timers := remove1 x (timers s), now := max (now s) (due x)\<rparr>))"
  by (subst run_timers.simps) simp

lemma timers_run_timers: "timers (run_timers t s) = filter (\<lambda>x. t < due x) (timers s)"
proof (induction t s rule: run_timers.induct)
  case (1 t s)
  show ?case
  proof (cases "next_due t (timers s)")
    case None
    then show ?thesis by (simp add: run_timers_none next_due_None_iff)
  next
    case (Some x)
    then have "due x \<le> t" by (simp add: next_due_Some)
    then have "filter (\<lambda>x. t < due x) (remove1 x (timers s)) = filter (\<lambda>x. t < due x) (timers s)"
      by (simp add: filter_remove1 remove1_filter_not)
    with "1.IH" [OF Some] Some show ?thesis
      by (simp add: run_timers_some timers_run_callback)
  qed
qed


lemma bex_remove1:
  "x \<in> set xs \<Longrightarrow> (\<exists>y\<in>set xs. P y) = (P x \<or> (\<exists>y\<in>set (remove1 x xs). P y))"
  by (metis in_set_remove1 notin_set_remove1)

lemma ball_remove1:
  "x \<in> set xs \<Longrightarrow> (\<forall>y\<in>set xs. P y) = (P x \<and> (\<forall>y\<in>set (remove1 x xs). P y))"
  by (metis in_set_remove1 notin_set_remove1)

lemma held_run_callback: "held (run_callback c s) = (held s \<or> is_hold c)"
  by (cases c) (simp_all add: startAnimation_def fireEvent_def)

lemma cooldownStart_run_callback:
  "cooldownStart (run_callback c s) = (cooldownStart s \<and> c \<noteq> CooldownStartReset)"
  by (cases c) (simp_all add: startAnimation_def fireEvent_def)

lemma cooldownEnd_run_callback:
  "cooldownEnd (run_callback c s) = (cooldownEnd s \<and> c \<noteq> CooldownEndReset)"
  by (cases c) (simp_all add: startAnimation_def fireEvent_def)

lemma dispatched_run_callback:
  "\<not> is_tap c \<Longrightarrow> dispatched (run_callback c s) = dispatched s"
  by (cases c) (simp_all add: startAnimation_def)

lemma style_run_callback:
  "\<not> is_hold c \<Longrightarrow> style (run_callback c s) = style s"
  by (cases c) (simp_all add: fireEvent_def)

lemma now_run_callback: "now (run_callback c s) = now s"
  by (cases c) (simp_all add: startAnimation_def fireEvent_def)

lemma frame_run_callback:
  "holdTime (run_callback c s) = holdTime s"
  "timer (run_callback c s) = timer s"
  "dblClickTimeout (run_callback c s) = dblClickTimeout s"
  "userAgent (run_callback c s) = userAgent s"
  "ontouchstart (run_callback c s) = ontouchstart s"
  "maxTouchPoints (run_callback c s) = maxTouchPoints s"
  "in_body (run_callback c s) = in_body s"
  "doc_listeners (run_callback c s) = doc_listeners s"
  "elements (run_callback c s) = elements s"
  "next_id (run_callback c s) = next_id s"
  by (cases c; simp add: startAnimation_def fireEvent_def)+

lemma held_run_timers:
  "held (run_timers t s) = (held s \<or> (\<exists>x\<in>set (timers s). due x \<le> t \<and> is_hold (cb x)))"
proof (induction t s rule: run_timers.induct)
  case (1 t s)
  show ?case
  proof (cases "next_due t (timers s)")
    case None
    then show ?thesis by (auto simp: run_timers_none next_due_None_iff)
  next
    case (Some x)
    then have x: "x \<in> set (timers s)" "due x \<le> t" by (simp_all add: next_due_Some)
    show ?thesis
      using "1.IH" [OF Some] x
      by (simp add: run_timers_some [OF Some] timers_run_callback held_run_callback
          bex_remove1 [OF x(1), of "\<lambda>x. due x \<le> t \<and> is_hold (cb x)"])
  qed
qed

lemma cooldownStart_run_timers:
  "cooldownStart (run_timers t s) =
     (cooldownStart s \<and> (\<forall>x\<in>set (timers s). due x \<le> t \<longrightarrow> cb x \<noteq> CooldownStartReset))"
proof (induction t s rule: run_timers.induct)
  case (1 t s)
  show ?case
  proof (cases "next_due t (timers s)")
    case None
    then show ?thesis by (auto simp: run_timers_none next_due_None_iff)
  next
    case (Some x)
    then have x: "x \<in> set (timers s)" "due x \<le> t" by (simp_all add: next_due_Some)
    show ?thesis
      using "1.IH" [OF Some] x
      by (simp add: run_timers_some [OF Some] timers_run_callback cooldownStart_run_callback
          ball_remove1 [OF x(1), of "\<lambda>x. due x \<le> t \<longrightarrow> cb x \<noteq> CooldownStartReset"])
  qed
qed

lemma cooldownEnd_run_timers:
  "cooldownEnd (run_timers t s) =
     (cooldownEnd s \<and> (\<forall>x\<in>set (timers s). due x \<le> t \<longrightarrow> cb x \<noteq> CooldownEndReset))"
proof (induction t s rule: run_timers.induct)
  case (1 t s)
  show ?case
  proof (cases "next_due t (timers s)")
    case None
    then show ?thesis by (auto simp: run_timers_none next_due_None_iff)
  next
    case (Some x)
    then have x: "x \<in> set (timers s)" "due x \<le> t" by (simp_all add: next_due_Some)
    show ?thesis
      using "1.IH" [OF Some] x
      by (simp add: run_timers_some [OF Some] timers_run_callback cooldownEnd_run_callback
          ball_remove1 [OF x(1), of "\<lambda>x. due x \<le> t \<longrightarrow> cb x \<noteq> CooldownEndReset"])
  qed
qed

lemma run_timers_preserves:
  "I s \<Longrightarrow>
   (\<And>x u. I u \<Longrightarrow> due x \<le> t \<Longrightarrow>
      I (run_callback (cb x) (u\<lparr>timers := remove1 x (timers u), now := max (now u) (due x)\<rparr>))) \<Longrightarrow>
   I (run_timers t s)"
proof (induction t s rule: run_timers.induct)
  case (1 t s)
  show ?case
  proof (cases "next_due t (timers s)")
    case None
    then show ?thesis using "1.prems"(1) by (simp add: run_timers_none)
  next
    case (Some x)
    then have "due x \<le> t" by (simp add: next_due_Some)
    from "1.prems"(2) [OF "1.prems"(1) this] have "I (run_callback (cb x)
        (s\<lparr>timers := remove1 x (timers s), now := max (now s) (due x)\<rparr>))" .
    from "1.IH" [OF Some this "1.prems"(2)] show ?thesis
      by (simp add: run_timers_some [OF Some])
  qed
qed

lemma frame_run_timers:
  "holdTime (run_timers t s) = holdTime s"
  "timer (run_timers t s) = timer s"
  "dblClickTimeout (run_timers t s) = dblClickTimeout s"
  "userAgent (run_timers t s) = userAgent s"
  "ontouchstart (run_timers t s) = ontouchstart s"
  "maxTouchPoints (run_timers t s) = maxTouchPoints s"
  "in_body (run_timers t s) = in_body s"
  "doc_listeners (run_timers t s) = doc_listeners s"
  "elements (run_timers t s) = elements s"
  "next_id (run_timers t s) = next_id s"
  by (rule run_timers_preserves; simp add: frame_run_callback)+

lemma now_run_timers: "now s \<le> t \<Longrightarrow> now (run_timers t s) \<le> t"
  by (rule run_timers_preserves; simp add: now_run_callback)


lemma dispatched_run_timers_same:
  "(\<forall>x\<in>set (timers s). due x \<le> t \<longrightarrow> \<not> is_tap (cb x)) \<Longrightarrow>
   dispatched (run_timers t s) = dispatched s"
proof (induction t s rule: run_timers.induct)
  case (1 t s)
  show ?case
  proof (cases "next_due t (timers s)")
    case None
    then show ?thesis by (simp add: run_timers_none)
  next
    case (Some x)
    then have x: "x \<in> set (timers s)" "due x \<le> t" by (simp_all add: next_due_Some)
    with "1.prems" have nt: "\<not> is_tap (cb x)" by blast
    have "\<forall>y\<in>set (remove1 x (timers s)). due y \<le> t \<longrightarrow> \<not> is_tap (cb y)"
      using "1.prems" by (meson notin_set_remove1)
    with "1.IH" [OF Some] nt show ?thesis
      by (simp add: run_timers_some [OF Some] timers_run_callback dispatched_run_callback)
  qed
qed

lemma style_run_timers_same:
  "(\<forall>x\<in>set (timers s). due x \<le> t \<longrightarrow> \<not> is_hold (cb x)) \<Longrightarrow>
   style (run_timers t s) = style s"
proof (induction t s rule: run_timers.induct)
  case (1 t s)
  show ?case
  proof (cases "next_due t (timers s)")
    case None
    then show ?thesis by (simp add: run_timers_none)
  next
    case (Some x)
    then have x: "x \<in> set (timers s)" "due x \<le> t" by (simp_all add: next_due_Some)
    with "1.prems" have nt: "\<not> is_hold (cb x)" by blast
    have "\<forall>y\<in>set (remove1 x (timers s)). due y \<le> t \<longrightarrow> \<not> is_hold (cb y)"
      using "1.prems" by (meson notin_set_remove1)
    with "1.IH" [OF Some] nt show ?thesis
      by (simp add: run_timers_some [OF Some] timers_run_callback style_run_callback)
  qed
qed

lemma dispatched_run_timers_one:
  "filter (\<lambda>y. due y \<le> t \<and> is_tap (cb y)) (timers s) = [Timer i u (TapFire el)] \<Longrightarrow>
   now s \<le> u \<Longrightarrow>
   dispatched (run_timers t s) =
     dispatched s @ [Notification u el ''action'' [(''action'', ''tap'')]]"
proof (induction t s rule: run_timers.induct)
  case (1 t s)
  let ?P = "\<lambda>y. due y \<le> t \<and> is_tap (cb y)"
  let ?z = "Timer i u (TapFire el)"
  have "?z \<in> set (filter ?P (timers s))"
    using "1.prems"(1) by simp
  then have z: "?z \<in> set (timers s)" "u \<le> t"
    by simp_all
  show ?case
  proof (cases "next_due t (timers s)")
    case None
    with z show ?thesis by (fastforce simp: next_due_None_iff)
  next
    case (Some x)
    then have x: "x \<in> set (timers s)" "due x \<le> t" "\<forall>y\<in>set (timers s). due x \<le> due y \<or> t < due y"
      by (simp_all add: next_due_Some)
    let ?s' = "run_callback (cb x) (s\<lparr>timers := remove1 x (timers s), now := max (now s) (due x)\<rparr>)"
    show ?thesis
    proof (cases "is_tap (cb x)")
      case True
      with x have "x \<in> set (filter ?P (timers s))" by simp
      with "1.prems"(1) have xz: "x = ?z" by simp
      have "filter ?P (remove1 x (timers s)) = []"
        using "1.prems"(1) by (simp add: filter_remove1 xz)
      then have "\<forall>y\<in>set (timers ?s'). due y \<le> t \<longrightarrow> \<not> is_tap (cb y)"
        by (simp add: timers_run_callback filter_empty_conv)
      then have "dispatched (run_timers t ?s') = dispatched ?s'"
        by (rule dispatched_run_timers_same)
      then show ?thesis using "1.prems"(2)
        by (simp add: run_timers_some [OF Some] xz fireEvent_def max_def)
    next
      case False
      then have "x \<noteq> ?z" by auto
      then have f: "filter ?P (timers ?s') = [?z]"
        using "1.prems"(1) by (simp add: timers_run_callback filter_remove1)
      from x(3) z have "due x \<le> u" by fastforce
      with "1.prems"(2) have n: "now ?s' \<le> u" by (simp add: now_run_callback)
      from "1.IH" [OF Some f n] False show ?thesis
        by (simp add: run_timers_some [OF Some] dispatched_run_callback)
    qed
  qed
qed

lemma now_advance: "now (advance d s) = now s + d"
  using now_run_timers [of s "now s + d"] by (simp add: advance_def Let_def)

lemma timers_advance: "timers (advance d s) = filter (\<lambda>x. now s + d < due x) (timers s)"
  by (simp add: advance_def Let_def timers_run_timers)

lemma held_advance:
  "held (advance d s) = (held s \<or> (\<exists>x\<in>set (timers s). due x \<le> now s + d \<and> is_hold (cb x)))"
  by (simp add: advance_def Let_def held_run_timers)

lemma cooldownStart_advance:
  "cooldownStart (advance d s) =
     (cooldownStart s \<and> (\<forall>x\<in>set (timers s). due x \<le> now s + d \<longrightarrow> cb x \<noteq> CooldownStartReset))"
  by (simp add: advance_def Let_def cooldownStart_run_timers)

lemma cooldownEnd_advance:
  "cooldownEnd (advance d s) =
     (cooldownEnd s \<and> (\<forall>x\<in>set (timers s). due x \<le> now s + d \<longrightarrow> cb x \<noteq> CooldownEndReset))"
  by (simp add: advance_def Let_def cooldownEnd_run_timers)

lemma dispatched_advance_same:
  "(\<forall>x\<in>set (timers s). due x \<le> now s + d \<longrightarrow> \<not> is_tap (cb x)) \<Longrightarrow>
   dispatched (advance d s) = dispatched s"
  by (simp add: advance_def Let_def dispatched_run_timers_same)

lemma dispatched_advance_one:
  "filter (\<lambda>y. due y \<le> now s + d \<and> is_tap (cb y)) (timers s) = [Timer i u (TapFire el)] \<Longrightarrow>
   now s \<le> u \<Longrightarrow>
   dispatched (advance d s) =
     dispatched s @ [Notification u el ''action'' [(''action'', ''tap'')]]"
  by (simp add: advance_def Let_def dispatched_run_timers_one)

lemma style_advance_same:
  "(\<forall>x\<in>set (timers s). due x \<le> now s + d \<longrightarrow> \<not> is_hold (cb x)) \<Longrightarrow>
   style (advance d s) = style s"
  by (simp add: advance_def Let_def style_run_timers_same)

lemma frame_advance:
  "holdTime (advance d s) = holdTime s"
  "timer (advance d s) = timer s"
  "dblClickTimeout (advance d s) = dblClickTimeout s"
  "userAgent (advance d s) = userAgent s"
  "ontouchstart (advance d s) = ontouchstart s"
  "maxTouchPoints (advance d s) = maxTouchPoints s"
  "in_body (advance d s) = in_body s"
  "doc_listeners (advance d s) = doc_listeners s"
  "elements (advance d s) = elements s"
  "next_id (advance d s) = next_id s"
  by (simp_all add: advance_def Let_def frame_run_timers)

section \<open>Press, hold and release\<close>

lemma run_Nil: "run s [] = s"
  by (simp add: run_def)

lemma run_Cons: "run s (i # ins) = run (step s i) ins"
  by (simp add: run_def)

lemma run_append: "run s (ins @ ins') = run (run s ins) ins'"
  by (simp add: run_def)

lemma clickStart_fresh:
  "\<not> cooldownStart s \<Longrightarrow> coords ev = Some (x, y) \<Longrightarrow>
   clickStart s ev =
     s\<lparr>held := False, timer := Some (next_id s), cooldownStart := True,
       timers := timers s @ [Timer (next_id s) (now s + holdTime s) (HoldFire x y),
                             Timer (Suc (next_id s)) (now s + 100) CooldownStartReset],
       next_id := Suc (Suc (next_id s))\<rparr>"
  by (simp add: clickStart_def setTimeout_def Let_def)

lemma wired_advance: "wired (advance d s) el opts = wired s el opts"
  by (simp add: wired_def frame_advance isIOS13_def)

lemma press_end_advance: "press_end (advance d s) ev = press_end s ev"
  by (simp add: press_end_def frame_advance isIOS13_def)

lemma press_start_advance: "press_start (advance d s) ev = press_start s ev"
  by (simp add: press_start_def frame_advance isIOS13_def)

lemmas advance_simps = now_advance timers_advance held_advance cooldownStart_advance
  cooldownEnd_advance frame_advance wired_advance press_end_advance press_start_advance

lemma press_idle:
  assumes "wired s el opts" "holdTime s = 500" "idle s" "press_start s ev"
    "coords ev = Some (x, y)"
  shows "dispatchEvent el ev s = pressed s x y"
  using assms by (simp add: dispatch_press_start clickStart_fresh idle_def pressed_def)

lemma wired_pressed: "wired (pressed s x y) el opts = wired s el opts"
  by (simp add: wired_def pressed_def)

lemma press_end_pressed: "press_end (pressed s x y) ev = press_end s ev"
  by (simp add: press_end_def pressed_def)

lemma dispatched_pressed_wait: "dispatched (advance d (pressed s x y)) = dispatched s"
  by (subst dispatched_advance_same) (simp_all add: pressed_def)

text \<open>Press-start, a wait and a press-end on a wired element of an idle recognizer.\<close>

lemma press_wait_release:
  assumes "wired s el opts" "holdTime s = 500" "idle s" "press_start s ev1"
    "coords ev1 = Some (x, y)" "press_end s ev2"
  shows "run s [Fire el ev1, Wait d, Fire el ev2] =
     clickEnd el opts (advance d (pressed s x y)) ev2"
proof -
  have 1: "dispatchEvent el ev1 s = pressed s x y"
    using assms by (simp add: press_idle)
  have "wired (advance d (pressed s x y)) el opts" "press_end (advance d (pressed s x y)) ev2"
    using assms by (simp_all add: advance_simps wired_pressed press_end_pressed)
  then have 2: "dispatchEvent el ev2 (advance d (pressed s x y)) =
     clickEnd el opts (advance d (pressed s x y)) ev2"
    by (rule dispatch_press_end)
  show ?thesis by (simp add: run_Cons run_Nil 1 2)
qed

lemma run_then_wait: "run s (ins @ [Wait w]) = advance w (run s ins)"
  by (simp add: run_append run_Cons run_Nil)

lemmas handler_defs = clickEnd_def Let_def clearTimeout_def stopAnimation_def fireEvent_def
  setTimeout_def

text \<open>
  The gesture on its own, on an element bound without double-click: when the recognizer is
  idle, a press-start followed by a press-end less than 500ms later dispatches nothing before
  the press-end, exactly one \<^verbatim>\<open>tap\<close> at the time of the press-end, and nothing after it
  however long one waits. (A timer due at the very time of an event runs before the event, so
  the release has to come strictly before the 500ms are over.)
\<close>

lemma tap_idle:
  assumes "wired s el opts" "\<not> truthy (hasDoubleClick opts)" "holdTime s = 500" "idle s"
    "press_start s ev1" "coords ev1 \<noteq> None" "press_end s ev2" "d < 500"
  shows "dispatched (run s [Fire el ev1, Wait d]) = dispatched s \<and>
     dispatched (run s [Fire el ev1, Wait d, Fire el ev2]) =
       dispatched s @ [Notification (now s + d) el ''action'' [(''action'', ''tap'')]] \<and>
     dispatched (run s [Fire el ev1, Wait d, Fire el ev2, Wait w]) =
       dispatched s @ [Notification (now s + d) el ''action'' [(''action'', ''tap'')]]"
proof -
  from assms(6) obtain x y where c: "coords ev1 = Some (x, y)" by auto
  let ?s3 = "clickEnd el opts (advance d (pressed s x y)) ev2"
  have r: "run s [Fire el ev1, Wait d, Fire el ev2] = ?s3"
    using assms c by (simp add: press_wait_release)
  have 1: "dispatched (run s [Fire el ev1, Wait d]) = dispatched s"
    using assms c by (simp add: run_Cons run_Nil press_idle dispatched_pressed_wait)
  have 2: "dispatched ?s3 =
      dispatched s @ [Notification (now s + d) el ''action'' [(''action'', ''tap'')]]"
    using assms
    by (simp add: handler_defs advance_simps dispatched_advance_same pressed_def idle_def)
  have "\<forall>x\<in>set (timers ?s3). \<not> is_tap (cb x)"
    using assms by (simp add: handler_defs advance_simps pressed_def idle_def)
  then have 3: "dispatched (advance w ?s3) = dispatched ?s3"
    by (simp add: dispatched_advance_same)
  have "run s [Fire el ev1, Wait d, Fire el ev2, Wait w] = advance w ?s3"
    using run_then_wait [of s "[Fire el ev1, Wait d, Fire el ev2]" w] r by simp
  with 1 2 3 r show ?thesis by simp
qed

text \<open>
  The long press on its own: when the recognizer is idle, a press-start on a bound element
  followed by nothing for at least 500ms puts the recognizer in the held state; nothing is
  dispatched while the press lasts. The press-end that follows dispatches exactly one
  \<^verbatim>\<open>hold\<close> on the element and nothing else, whatever the double-click option, and nothing
  is dispatched after it however long one waits.
\<close>

lemma hold_idle:
  assumes "wired s el opts" "holdTime s = 500" "idle s"
    "press_start s ev1" "coords ev1 \<noteq> None" "press_end s ev2" "500 \<le> d"
  shows "held (run s [Fire el ev1, Wait d]) \<and>
     dispatched (run s [Fire el ev1, Wait d]) = dispatched s \<and>
     dispatched (run s [Fire el ev1, Wait d, Fire el ev2]) =
       dispatched s @ [Notification (now s + d) el ''action'' [(''action'', ''hold'')]] \<and>
     dispatched (run s [Fire el ev1, Wait d, Fire el ev2, Wait w]) =
       dispatched s @ [Notification (now s + d) el ''action'' [(''action'', ''hold'')]]"
proof -
  from assms(5) obtain x y where c: "coords ev1 = Some (x, y)" by auto
  let ?s3 = "clickEnd el opts (advance d (pressed s x y)) ev2"
  have r: "run s [Fire el ev1, Wait d, Fire el ev2] = ?s3"
    using assms c by (simp add: press_wait_release)
  have r2: "run s [Fire el ev1, Wait d] = advance d (pressed s x y)"
    using assms c by (simp add: run_Cons run_Nil press_idle)
  have 0: "held (advance d (pressed s x y))"
    using assms by (simp add: advance_simps pressed_def)
  have 1: "dispatched (advance d (pressed s x y)) = dispatched s"
    by (rule dispatched_pressed_wait)
  have 2: "dispatched ?s3 =
      dispatched s @ [Notification (now s + d) el ''action'' [(''action'', ''hold'')]]"
    using assms
    by (simp add: handler_defs advance_simps dispatched_advance_same pressed_def idle_def)
  have "\<forall>x\<in>set (timers ?s3). \<not> is_tap (cb x)"
    using assms by (simp add: handler_defs advance_simps pressed_def idle_def)
  then have 3: "dispatched (advance w ?s3) = dispatched ?s3"
    by (simp add: dispatched_advance_same)
  have "run s [Fire el ev1, Wait d, Fire el ev2, Wait w] = advance w ?s3"
    using run_then_wait [of s "[Fire el ev1, Wait d, Fire el ev2]" w] r by simp
  with 0 1 2 3 r r2 show ?thesis by simp
qed

section \<open>Double click\<close>


lemma wired_cong:
  "elements s' = elements s \<Longrightarrow> userAgent s' = userAgent s \<Longrightarrow>
   wired s' el opts = wired s el opts"
  by (simp add: wired_def isIOS13_def)

lemma press_start_cong: "userAgent s' = userAgent s \<Longrightarrow> press_start s' ev = press_start s ev"
  by (simp add: press_start_def isIOS13_def)

lemma press_end_cong: "userAgent s' = userAgent s \<Longrightarrow> press_end s' ev = press_end s ev"
  by (simp add: press_end_def isIOS13_def)

lemma frame_clickStart:
  "elements (clickStart s ev) = elements s" "userAgent (clickStart s ev) = userAgent s"
  by (simp_all add: clickStart_def setTimeout_def Let_def split: option.splits prod.splits)





section \<open>Cancellation from the document\<close>

lemma cancelHold_twice: "cancelHold (cancelHold s) = cancelHold s"
  by (simp add: cancelHold_def clearTimeout_def stopAnimation_def split: option.splits)

lemma fold_cancelled:
  "fold (\<lambda>(ty', h) t. if ty' = ty then run_doc_listener h t else t) xs (cancelHold s) =
     cancelHold s"
proof (induction xs)
  case Nil
  then show ?case by simp
next
  case (Cons a xs)
  obtain ty' h where a: "a = (ty', h)" by (cases a)
  show ?case using Cons by (cases h) (simp add: a cancelHold_twice)
qed

lemma fold_doc_listeners:
  "fold (\<lambda>(ty', h) t. if ty' = ty then run_doc_listener h t else t) xs s =
     (if ty \<in> fst ` set xs then cancelHold s else s)"
proof (induction xs arbitrary: s)
  case Nil
  then show ?case by simp
next
  case (Cons a xs)
  obtain ty' h where a: "a = (ty', h)" by (cases a)
  show ?case
  proof (cases "ty' = ty")
    case True
    then show ?thesis by (cases h) (simp add: a fold_cancelled)
  next
    case False
    then show ?thesis using Cons by (simp add: a)
  qed
qed

lemma dispatchDocument_eq:
  "dispatchDocument ty s = (if ty \<in> fst ` set (doc_listeners s) then cancelHold s else s)"
  by (simp add: dispatchDocument_def fold_doc_listeners)

lemma dispatch_cancel:
  "cancel_wired s \<Longrightarrow> ty \<in> set cancel_actions \<Longrightarrow> dispatchDocument ty s = cancelHold s"
  by (simp add: dispatchDocument_eq cancel_wired_def image_image)

lemma connectedCallback_cancel_wired:
  "doc_listeners s = [] \<Longrightarrow> cancel_wired (connectedCallback s)"
  by (simp add: connectedCallback_def cancel_wired_def cancel_actions_def)

lemma frame_clearTimeout:
  "holdTime (clearTimeout h s) = holdTime s"
  "timer (clearTimeout h s) = timer s"
  "held (clearTimeout h s) = held s"
  "cooldownStart (clearTimeout h s) = cooldownStart s"
  "cooldownEnd (clearTimeout h s) = cooldownEnd s"
  "dblClickTimeout (clearTimeout h s) = dblClickTimeout s"
  "style (clearTimeout h s) = style s"
  "userAgent (clearTimeout h s) = userAgent s"
  "ontouchstart (clearTimeout h s) = ontouchstart s"
  "maxTouchPoints (clearTimeout h s) = maxTouchPoints s"
  "in_body (clearTimeout h s) = in_body s"
  "doc_listeners (clearTimeout h s) = doc_listeners s"
  "elements (clearTimeout h s) = elements s"
  "next_id (clearTimeout h s) = next_id s"
  "now (clearTimeout h s) = now s"
  "dispatched (clearTimeout h s) = dispatched s"
  by (simp_all add: clearTimeout_def split: option.splits)

lemma timers_clearTimeout: "set (timers (clearTimeout h s)) \<subseteq> set (timers s)"
  by (auto simp: clearTimeout_def split: option.splits)

lemmas release_defs = clickEnd_def Let_def stopAnimation_def fireEvent_def setTimeout_def

lemma hold_notes_clickEnd:
  "\<not> held s \<Longrightarrow> hold_notes (dispatched (clickEnd el opts s ev)) = hold_notes (dispatched s)"
  by (simp add: hold_notes_def release_defs frame_clearTimeout)

lemma hold_notes_handleEnter:
  "\<not> held s \<Longrightarrow> hold_notes (dispatched (handleEnter el opts s ev)) = hold_notes (dispatched s)"
  by (simp add: handleEnter_def hold_notes_clickEnd)

lemma cancel_wired_cong: "doc_listeners s' = doc_listeners s \<Longrightarrow> cancel_wired s' = cancel_wired s"
  by (simp add: cancel_wired_def)

text \<open>
  A cancelled press on its own: on an idle recognizer whose document listeners are those of
  \<^verbatim>\<open>connectedCallback\<close>, a press-start on a bound element arms the hold timer. When one of
  the seven cancel-class events then fires on the document before the 500ms are over, the hold
  timer leaves the queue, \<^verbatim>\<open>timer\<close> is undefined and the indicator is hidden. From then on,
  however long one waits, the recognizer does not reach the held state and dispatches nothing,
  and a release or an Enter key that follows dispatches no \<^verbatim>\<open>hold\<close>.
\<close>

lemma cancel_idle:
  assumes "wired s el opts" "cancel_wired s" "holdTime s = 500" "idle s"
    "press_start s ev1" "coords ev1 = Some (x, y)" "d < 500" "ty \<in> set cancel_actions"
    "press_end s ev2 \<or> ev_type ev2 = ''keyup''"
  shows "Timer (next_id s) (now s + 500) (HoldFire x y) \<in> set (timers (run s [Fire el ev1, Wait d])) \<and>
     timer (run s [Fire el ev1, Wait d]) = Some (next_id s) \<and>
     timer (run s [Fire el ev1, Wait d, DocFire ty]) = None \<and>
     (\<forall>t\<in>set (timers (run s [Fire el ev1, Wait d, DocFire ty])). \<not> is_hold (cb t)) \<and>
     display (style (run s [Fire el ev1, Wait d, DocFire ty])) = Some ''none'' \<and>
     \<not> held (run s [Fire el ev1, Wait d, DocFire ty, Wait w]) \<and>
     dispatched (run s [Fire el ev1, Wait d, DocFire ty, Wait w]) = dispatched s \<and>
     hold_notes (dispatched (run s [Fire el ev1, Wait d, DocFire ty, Wait w, Fire el ev2])) =
       hold_notes (dispatched s)"
proof -
  define s2 where "s2 = advance d (pressed s x y)"
  define s3 where "s3 = cancelHold s2"
  define s4 where "s4 = advance w s3"
  have r2: "run s [Fire el ev1, Wait d] = s2"
    using assms by (simp add: run_Cons run_Nil press_idle s2_def)
  have "doc_listeners s2 = doc_listeners s"
    by (simp add: s2_def frame_advance pressed_def)
  from cancel_wired_cong [OF this] assms(2) have "cancel_wired s2" by simp
  then have "dispatchDocument ty s2 = s3"
    unfolding s3_def using assms(8) by (rule dispatch_cancel)
  then have r3: "run s [Fire el ev1, Wait d, DocFire ty] = s3"
    using run_append [of s "[Fire el ev1, Wait d]" "[DocFire ty]"] r2
    by (simp add: run_Cons run_Nil)
  have r4: "run s [Fire el ev1, Wait d, DocFire ty, Wait w] = s4"
    using run_then_wait [of s "[Fire el ev1, Wait d, DocFire ty]" w] r3 by (simp add: s4_def)
  have r5: "run s [Fire el ev1, Wait d, DocFire ty, Wait w, Fire el ev2] = dispatchEvent el ev2 s4"
    using run_append [of s "[Fire el ev1, Wait d, DocFire ty, Wait w]" "[Fire el ev2]"] r4
    by (simp add: run_Cons run_Nil)
  have 2: "Timer (next_id s) (now s + 500) (HoldFire x y) \<in> set (timers s2)"
    "timer s2 = Some (next_id s)"
    using assms(7) by (simp_all add: s2_def advance_simps pressed_def)
  have 3: "timer s3 = None" "\<forall>t\<in>set (timers s3). \<not> is_hold (cb t)"
    "display (style s3) = Some ''none''" "\<not> held s3" "dispatched s3 = dispatched s"
    "\<forall>t\<in>set (timers s3). \<not> is_tap (cb t)"
    "elements s3 = elements s" "userAgent s3 = userAgent s"
    using assms(4,7)
    by (simp_all add: s3_def s2_def cancelHold_def clearTimeout_def stopAnimation_def
        advance_simps dispatched_advance_same pressed_def idle_def)
  have 4: "\<not> held s4" "dispatched s4 = dispatched s"
    "elements s4 = elements s" "userAgent s4 = userAgent s"
    using 3 by (simp_all add: s4_def advance_simps dispatched_advance_same)
  have w4: "wired s4 el opts"
    using wired_cong [OF 4(3,4)] assms(1) by simp
  have "hold_notes (dispatched (dispatchEvent el ev2 s4)) = hold_notes (dispatched s4)"
    using assms(9)
  proof
    assume "press_end s ev2"
    with press_end_cong [OF 4(4)] have "press_end s4 ev2" by simp
    with w4 have "dispatchEvent el ev2 s4 = clickEnd el opts s4 ev2"
      by (rule dispatch_press_end)
    with 4(1) show ?thesis by (simp add: hold_notes_clickEnd)
  next
    assume "ev_type ev2 = ''keyup''"
    with w4 have "dispatchEvent el ev2 s4 = handleEnter el opts s4 ev2"
      by (rule dispatch_keyup)
    with 4(1) show ?thesis by (simp add: hold_notes_handleEnter)
  qed
  with 2 3 4 show ?thesis
    by (simp add: r2 r3 r4 r5)
qed

section \<open>The Enter key\<close>

lemma timers_clearTimeout_empty: "timers s = [] \<Longrightarrow> timers (clearTimeout h s) = []"
  by (simp add: clearTimeout_def split: option.splits)

lemma enter_other_key:
  "wired s el opts \<Longrightarrow> ev_type ev = ''keyup'' \<Longrightarrow> keyCode ev \<noteq> 13 \<or> cooldownEnd s \<Longrightarrow>
   dispatchEvent el ev s = s"
  by (auto simp: dispatch_keyup handleEnter_def clickEnd_def)

lemma enter_single:
  assumes "ev_type ev = ''keyup''" "\<not> cooldownEnd s" "\<not> held s" "\<not> truthy (hasDoubleClick opts)"
  shows "dispatched (clickEnd el opts s ev) =
      dispatched s @ [Notification (now s) el ''action'' [(''action'', ''tap'')]]"
    and "timers s = [] \<Longrightarrow> \<forall>t\<in>set (timers (clickEnd el opts s ev)). \<not> is_tap (cb t)"
  using assms by (simp_all add: release_defs frame_clearTimeout timers_clearTimeout_empty)

lemma enter_double:
  assumes "ev_type ev = ''keyup''" "\<not> cooldownEnd s" "\<not> held s" "truthy (hasDoubleClick opts)"
  shows "dispatched (clickEnd el opts s ev) = dispatched s"
    and "Timer (next_id s) (now s + 250) (TapFire el) \<in> set (timers (clickEnd el opts s ev))"
    and "now (clickEnd el opts s ev) = now s"
    and "timers s = [] \<Longrightarrow> timers (clickEnd el opts s ev) =
      [Timer (next_id s) (now s + 250) (TapFire el),
       Timer (Suc (next_id s)) (now s + 100) CooldownEndReset]"
  using assms by (simp_all add: release_defs frame_clearTimeout timers_clearTimeout_empty)

text \<open>
  C8, as the code has it. A \<^verbatim>\<open>keyup\<close> on a bound element with a key code other than 13, or
  during the end cooldown, changes nothing and dispatches nothing. A \<^verbatim>\<open>keyup\<close> with key code
  13, outside the end cooldown and with \<^verbatim>\<open>held\<close> false, needs no press-start before it: with
  double-click disabled it dispatches one \<^verbatim>\<open>tap\<close> at once; with double-click enabled it
  dispatches nothing at once and queues a \<^verbatim>\<open>tap\<close> for 250ms later, never a
  \<^verbatim>\<open>double_tap\<close>. On an idle recognizer that is all that is dispatched, however long one
  waits.
\<close>

theorem enter_key_rules:
  assumes "wired s el opts" "ev_type ev = ''keyup''"
  shows "(keyCode ev \<noteq> 13 \<or> cooldownEnd s \<longrightarrow> step s (Fire el ev) = s) \<and>
     (keyCode ev = 13 \<and> \<not> cooldownEnd s \<and> \<not> held s \<and> \<not> truthy (hasDoubleClick opts) \<longrightarrow>
        dispatched (step s (Fire el ev)) =
          dispatched s @ [Notification (now s) el ''action'' [(''action'', ''tap'')]] \<and>
        (idle s \<longrightarrow>
           dispatched (run s [Fire el ev, Wait w]) =
             dispatched s @ [Notification (now s) el ''action'' [(''action'', ''tap'')]])) \<and>
     (keyCode ev = 13 \<and> \<not> cooldownEnd s \<and> \<not> held s \<and> truthy (hasDoubleClick opts) \<longrightarrow>
        dispatched (step s (Fire el ev)) = dispatched s \<and>
        Timer (next_id s) (now s + 250) (TapFire el) \<in> set (timers (step s (Fire el ev))) \<and>
        (idle s \<longrightarrow>
           dispatched (run s [Fire el ev, Wait w]) =
             (if w < 250 then dispatched s
              else dispatched s @
                [Notification (now s + 250) el ''action'' [(''action'', ''tap'')]])))"
proof (intro conjI impI)
  assume "keyCode ev \<noteq> 13 \<or> cooldownEnd s"
  with assms show "step s (Fire el ev) = s" by (simp add: enter_other_key)
next
  assume a: "keyCode ev = 13 \<and> \<not> cooldownEnd s \<and> \<not> held s \<and> \<not> truthy (hasDoubleClick opts)"
  then have r: "dispatchEvent el ev s = clickEnd el opts s ev"
    using assms by (simp add: dispatch_keyup handleEnter_def)
  note E = enter_single [of ev s opts el]
  show "dispatched (step s (Fire el ev)) =
      dispatched s @ [Notification (now s) el ''action'' [(''action'', ''tap'')]]"
    using a assms E(1) by (simp add: r)
  assume "idle s"
  then have "\<forall>t\<in>set (timers (clickEnd el opts s ev)). \<not> is_tap (cb t)"
    using a assms E(2) by (simp add: idle_def)
  then have "dispatched (advance w (clickEnd el opts s ev)) = dispatched (clickEnd el opts s ev)"
    by (simp add: dispatched_advance_same)
  then show "dispatched (run s [Fire el ev, Wait w]) =
      dispatched s @ [Notification (now s) el ''action'' [(''action'', ''tap'')]]"
    using a assms E(1) r by (simp add: run_Cons run_Nil)
next
  assume a: "keyCode ev = 13 \<and> \<not> cooldownEnd s \<and> \<not> held s \<and> truthy (hasDoubleClick opts)"
  then have r: "dispatchEvent el ev s = clickEnd el opts s ev"
    using assms by (simp add: dispatch_keyup handleEnter_def)
  note E = enter_double [of ev s opts el]
  show "dispatched (step s (Fire el ev)) = dispatched s"
    using a assms E(1) by (simp add: r)
  show "Timer (next_id s) (now s + 250) (TapFire el) \<in> set (timers (step s (Fire el ev)))"
    using a assms E(2) by (simp add: r)
  assume "idle s"
  then have t: "timers (clickEnd el opts s ev) =
      [Timer (next_id s) (now s + 250) (TapFire el),
       Timer (Suc (next_id s)) (now s + 100) CooldownEndReset]"
    using a assms E(4) by (simp add: idle_def)
  have n: "now (clickEnd el opts s ev) = now s" "dispatched (clickEnd el opts s ev) = dispatched s"
    using a assms E(1,3) by simp_all
  have 1: "dispatched (advance w (clickEnd el opts s ev)) = dispatched s" if "w < 250"
    using that by (simp add: dispatched_advance_same t n)
  have 2: "dispatched (advance w (clickEnd el opts s ev)) =
      dispatched s @ [Notification (now s + 250) el ''action'' [(''action'', ''tap'')]]"
    if "\<not> w < 250"
    using that
      dispatched_advance_one [of "clickEnd el opts s ev" w "next_id s" "now s + 250" el]
    by (simp add: t n)
  show "dispatched (run s [Fire el ev, Wait w]) =
      (if w < 250 then dispatched s
       else dispatched s @ [Notification (now s + 250) el ''action'' [(''action'', ''tap'')]])"
    using 1 2 r by (simp add: run_Cons run_Nil)
qed

theorem enter_key_rules_witness:
  "step (actionHandlerBind 3 single_click desktop) (Fire 3 (key_event 32)) =
     actionHandlerBind 3 single_click desktop \<and>
   dispatched (step (actionHandlerBind 3 single_click desktop) (Fire 3 (key_event 13))) =
     [Notification 0 3 ''action'' [(''action'', ''tap'')]] \<and>
   dispatched (run (actionHandlerBind 3 single_click desktop)
      [Fire 3 (key_event 13), Wait 1000]) =
     [Notification 0 3 ''action'' [(''action'', ''tap'')]] \<and>
   dispatched (step (actionHandlerBind 3 double_click desktop) (Fire 3 (key_event 13))) = [] \<and>
   dispatched (run (actionHandlerBind 3 double_click desktop)
      [Fire 3 (key_event 13), Wait 249]) = [] \<and>
   dispatched (run (actionHandlerBind 3 double_click desktop)
      [Fire 3 (key_event 13), Wait 250]) =
     [Notification 250 3 ''action'' [(''action'', ''tap'')]]"
proof -
  let ?s = "actionHandlerBind 3 single_click desktop"
  let ?d = "actionHandlerBind 3 double_click desktop"
  have h: "wired ?s 3 single_click" "ev_type (key_event 32) = ''keyup''"
    "ev_type (key_event 13) = ''keyup''" "wired ?d 3 double_click"
    by code_simp+
  have v: "keyCode (key_event 32) \<noteq> 13" "keyCode (key_event 13) = 13"
    "\<not> cooldownEnd ?s" "\<not> held ?s" "\<not> truthy (hasDoubleClick single_click)" "idle ?s"
    "\<not> cooldownEnd ?d" "\<not> held ?d" "truthy (hasDoubleClick double_click)" "idle ?d"
    "dispatched ?s = []" "now ?s = 0" "dispatched ?d = []" "now ?d = 0"
    by code_simp+
  from enter_key_rules [OF h(1) h(2), of 0] enter_key_rules [OF h(1) h(3), of 1000]
    enter_key_rules [OF h(4) h(3), of 249] enter_key_rules [OF h(4) h(3), of 250]
  show ?thesis
    by (simp add: v)
qed

text \<open>
  C8 fails as stated. After a mouse press held for 600ms and released outside the element,
  \<^verbatim>\<open>held\<close> stays true, and the Enter key then dispatches \<^verbatim>\<open>hold\<close>, not \<^verbatim>\<open>tap\<close>. A second
  Enter key 50ms after the first dispatches nothing. And with double-click enabled two Enter
  keys 150ms apart give two \<^verbatim>\<open>tap\<close>s and no \<^verbatim>\<open>double_tap\<close>, where two clicks would give
  one \<^verbatim>\<open>double_tap\<close>.
\<close>

theorem enter_key_counterexample:
  "dispatched (run (actionHandlerBind 3 single_click desktop)
      [Fire 3 (mouse_event ''mousedown'' 1), Wait 600, DocFire ''mouseup'', Wait 5000,
       Fire 3 (key_event 13), Wait 1000]) =
     [Notification 5600 3 ''action'' [(''action'', ''hold'')]] \<and>
   dispatched (run (actionHandlerBind 3 single_click desktop)
      [Fire 3 (key_event 13), Wait 50, Fire 3 (key_event 13), Wait 1000]) =
     [Notification 0 3 ''action'' [(''action'', ''tap'')]] \<and>
   dispatched (run (actionHandlerBind 3 double_click desktop)
      [Fire 3 (key_event 13), Wait 150, Fire 3 (key_event 13), Wait 1000]) =
     [Notification 250 3 ''action'' [(''action'', ''tap'')],
      Notification 400 3 ''action'' [(''action'', ''tap'')]]"
  by code_simp

section \<open>The held flag\<close>

lemma held_clickEnd: "held (clickEnd el opts s ev) = held s"
  by (simp add: release_defs frame_clearTimeout split: prod.splits)

lemma held_handleEnter: "held (handleEnter el opts s ev) = held s"
  by (simp add: handleEnter_def held_clickEnd)

lemma frame_cancelHold:
  "held (cancelHold s) = held s"
  "cooldownStart (cancelHold s) = cooldownStart s"
  "cooldownEnd (cancelHold s) = cooldownEnd s"
  "elements (cancelHold s) = elements s"
  "userAgent (cancelHold s) = userAgent s"
  "in_body (cancelHold s) = in_body s"
  "dispatched (cancelHold s) = dispatched s"
  "now (cancelHold s) = now s"
  "holdTime (cancelHold s) = holdTime s"
  "doc_listeners (cancelHold s) = doc_listeners s"
  by (simp_all add: cancelHold_def stopAnimation_def frame_clearTimeout)

lemma frame_dispatchDocument:
  "held (dispatchDocument ty s) = held s"
  "cooldownStart (dispatchDocument ty s) = cooldownStart s"
  "cooldownEnd (dispatchDocument ty s) = cooldownEnd s"
  "elements (dispatchDocument ty s) = elements s"
  "userAgent (dispatchDocument ty s) = userAgent s"
  "in_body (dispatchDocument ty s) = in_body s"
  "dispatched (dispatchDocument ty s) = dispatched s"
  "now (dispatchDocument ty s) = now s"
  "holdTime (dispatchDocument ty s) = holdTime s"
  "doc_listeners (dispatchDocument ty s) = doc_listeners s"
  by (simp_all add: dispatchDocument_eq frame_cancelHold)

lemma held_addEventListener: "held (addEventListener el ty h s) = held s"
  by (simp add: addEventListener_def)

lemma held_bind: "held (bind el opts s) = held s"
  by (simp add: bind_def Let_def held_addEventListener)

lemma held_fold_listeners:
  "\<forall>(ty, h)\<in>set xs. ty = ev_type ev \<longrightarrow> h \<noteq> ClickStart \<Longrightarrow>
   held (fold (\<lambda>(ty, h) t. if ty = ev_type ev then run_listener h t ev else t) xs s) = held s"
proof (induction xs arbitrary: s)
  case Nil
  then show ?case by simp
next
  case (Cons a xs)
  obtain ty h where a: "a = (ty, h)" by (cases a)
  have "held (if ty = ev_type ev then run_listener h s ev else s) = held s"
    using Cons.prems by (cases h) (auto simp: a held_clickEnd held_handleEnter)
  with Cons show ?case by (simp add: a)
qed

lemma held_dispatchEvent:
  "(ev_type ev, ClickStart) \<notin> set (listeners (elements s el)) \<Longrightarrow>
   held (dispatchEvent el ev s) = held s"
  unfolding dispatchEvent_def by (rule held_fold_listeners) auto

lemma held_passive:
  "is_passive i \<Longrightarrow> held s \<Longrightarrow> held (step s i)"
  by (cases i) (simp_all add: held_advance frame_dispatchDocument)

lemma passive_frame:
  assumes "is_passive i"
  shows "cooldownEnd (step s i) \<Longrightarrow> cooldownEnd s"
    and "elements (step s i) = elements s" and "userAgent (step s i) = userAgent s"
  using assms by (cases i; simp add: cooldownEnd_advance frame_advance frame_dispatchDocument)+

lemma run_passive:
  "\<forall>i\<in>set ins. is_passive i \<Longrightarrow> held s \<Longrightarrow> \<not> cooldownEnd s \<Longrightarrow>
   held (run s ins) \<and> \<not> cooldownEnd (run s ins) \<and>
   elements (run s ins) = elements s \<and> userAgent (run s ins) = userAgent s"
proof (induction ins arbitrary: s)
  case Nil
  then show ?case by (simp add: run_Nil)
next
  case (Cons i ins)
  then have p: "is_passive i" by simp
  have "held (step s i)" "\<not> cooldownEnd (step s i)"
    using p Cons.prems held_passive passive_frame(1) by blast+
  with Cons.IH [of "step s i"] Cons.prems(1) show ?case
    by (simp add: run_Cons passive_frame(2,3) [OF p])
qed

lemma release_when_held:
  assumes "held s" "\<not> cooldownEnd s" "ev_type ev = ''click'' \<or> ev_type ev = ''keyup''"
  shows "dispatched (clickEnd el opts s ev) =
     dispatched s @ [Notification (now s) el ''action'' [(''action'', ''hold'')]]"
  using assms(3)
  by (elim disjE; simp add: assms(1,2) release_defs frame_clearTimeout)

text \<open>
  C10. Once \<^verbatim>\<open>held\<close> is true it stays true through any passing of time and any events on
  the document, the cancel-class events among them: their listener clears the timer and hides
  the indicator and leaves \<^verbatim>\<open>held\<close> alone. So, the end cooldown being clear, a \<^verbatim>\<open>click\<close> or
  an Enter key on a bound element that comes after them still dispatches \<^verbatim>\<open>hold\<close>. The only
  input that takes \<^verbatim>\<open>held\<close> back to false is an event on an element that has a
  \<^verbatim>\<open>clickStart\<close> listener for the event's type: a press-start.
\<close>

theorem held_survives_cancel:
  assumes "wired s el opts" "in_body s" "held s" "\<not> cooldownEnd s"
    "\<forall>i\<in>set ins. is_passive i"
    "(ev_type ev = ''click'' \<and> \<not> isIOS13 s) \<or> (ev_type ev = ''keyup'' \<and> keyCode ev = 13)"
  shows "held (run s ins) \<and>
     dispatched (step (run s ins) (Fire el ev)) =
       dispatched (run s ins) @
         [Notification (now (run s ins)) el ''action'' [(''action'', ''hold'')]] \<and>
     (\<not> held (step s i) \<longrightarrow>
        (\<exists>e v. i = Fire e v \<and> (ev_type v, ClickStart) \<in> set (listeners (elements s e))))"
proof -
  let ?t = "run s ins"
  from run_passive [OF assms(5,3,4)]
  have t: "held ?t" "\<not> cooldownEnd ?t" "elements ?t = elements s" "userAgent ?t = userAgent s"
    by simp_all
  have w: "wired ?t el opts"
    using wired_cong [OF t(3,4)] assms(1) by simp
  have "dispatchEvent el ev ?t = clickEnd el opts ?t ev"
    using assms(6)
  proof
    assume a: "ev_type ev = ''click'' \<and> \<not> isIOS13 s"
    then have "press_end s ev" by (simp add: press_end_def)
    with press_end_cong [OF t(4)] have "press_end ?t ev" by simp
    with w show ?thesis by (rule dispatch_press_end)
  next
    assume a: "ev_type ev = ''keyup'' \<and> keyCode ev = 13"
    with w show ?thesis by (simp add: dispatch_keyup handleEnter_def)
  qed
  moreover have "ev_type ev = ''click'' \<or> ev_type ev = ''keyup''"
    using assms(6) by blast
  ultimately have d: "dispatched (dispatchEvent el ev ?t) =
      dispatched ?t @ [Notification (now ?t) el ''action'' [(''action'', ''hold'')]]"
    using t(1,2) by (simp add: release_when_held)
  have "\<exists>e v. i = Fire e v \<and> (ev_type v, ClickStart) \<in> set (listeners (elements s e))"
    if n: "\<not> held (step s i)"
  proof (cases i)
    case (Wait d)
    with n assms(3) show ?thesis by (simp add: held_advance)
  next
    case (Fire e v)
    with n assms(3) held_dispatchEvent [of v s e] show ?thesis by auto
  next
    case (DocFire ty)
    with n assms(3) show ?thesis by (simp add: frame_dispatchDocument)
  next
    case (BindCall e o)
    with n assms(2,3) show ?thesis
      by (simp add: actionHandlerBind_def getActionHandler_in_body held_bind)
  qed
  with t(1) d show ?thesis by simp
qed

theorem held_survives_cancel_witness:
  "held (run (run (actionHandlerBind 3 single_click desktop)
        [Fire 3 (mouse_event ''mousedown'' 1), Wait 600])
      [DocFire ''mouseup'', Wait 5000, DocFire ''scroll'']) \<and>
   dispatched (step (run (run (actionHandlerBind 3 single_click desktop)
        [Fire 3 (mouse_event ''mousedown'' 1), Wait 600])
      [DocFire ''mouseup'', Wait 5000, DocFire ''scroll'']) (Fire 3 (key_event 13))) =
     [Notification 5600 3 ''action'' [(''action'', ''hold'')]] \<and>
   \<not> held (step (run (actionHandlerBind 3 single_click desktop)
        [Fire 3 (mouse_event ''mousedown'' 1), Wait 600])
      (Fire 3 (mouse_event ''mousedown'' 1))) \<and>
   (''mousedown'', ClickStart) \<in> set (listeners (elements
      (run (actionHandlerBind 3 single_click desktop)
        [Fire 3 (mouse_event ''mousedown'' 1), Wait 600]) 3))"
proof -
  let ?s = "run (actionHandlerBind 3 single_click desktop)
      [Fire 3 (mouse_event ''mousedown'' 1), Wait 600]"
  let ?ins = "[DocFire ''mouseup'', Wait 5000, DocFire ''scroll'']"
  have h: "wired ?s 3 single_click" "in_body ?s" "held ?s" "\<not> cooldownEnd ?s"
    "\<forall>i\<in>set ?ins. is_passive i"
    "(ev_type (key_event 13) = ''click'' \<and> \<not> isIOS13 ?s) \<or>
     (ev_type (key_event 13) = ''keyup'' \<and> keyCode (key_event 13) = 13)"
    by code_simp+
  have v: "dispatched (run ?s ?ins) = []" "now (run ?s ?ins) = 5600"
    "\<not> held (step ?s (Fire 3 (mouse_event ''mousedown'' 1)))"
    "(''mousedown'', ClickStart) \<in> set (listeners (elements ?s 3))"
    by code_simp+
  from held_survives_cancel [OF h] v show ?thesis
    by simp
qed

section \<open>The notifications dispatched\<close>

lemma emits_same: "dispatched s' = dispatched s \<Longrightarrow> emits s s'"
  by (simp add: emits_def)

lemma emits_one:
  "dispatched s' = dispatched s @ [n] \<Longrightarrow> action_note n \<Longrightarrow> emits s s'"
  unfolding emits_def by (rule exI [of _ "[n]"]) simp

lemma emits_trans: "emits s t \<Longrightarrow> emits t u \<Longrightarrow> emits s u"
  unfolding emits_def by (metis UnE append.assoc set_append)

lemma emits_from: "dispatched t = dispatched s \<Longrightarrow> emits t u \<Longrightarrow> emits s u"
  by (simp add: emits_def)

lemma action_note_simps:
  "action_note (Notification t el ''action'' [(''action'', ''tap'')])"
  "action_note (Notification t el ''action'' [(''action'', ''hold'')])"
  "action_note (Notification t el ''action'' [(''action'', ''double_tap'')])"
  by (simp_all add: action_note_def)

lemma dispatched_clickEnd:
  "dispatched (clickEnd el opts s ev) = dispatched s \<or>
   dispatched (clickEnd el opts s ev) =
     dispatched s @ [Notification (now s) el ''action'' [(''action'', ''tap'')]] \<or>
   dispatched (clickEnd el opts s ev) =
     dispatched s @ [Notification (now s) el ''action'' [(''action'', ''hold'')]] \<or>
   dispatched (clickEnd el opts s ev) =
     dispatched s @ [Notification (now s) el ''action'' [(''action'', ''double_tap'')]]"
  by (simp add: release_defs frame_clearTimeout split: prod.splits)

lemma emits_clickEnd: "emits s (clickEnd el opts s ev)"
  using dispatched_clickEnd [of el opts s ev]
  by (elim disjE) (simp_all add: emits_same emits_one action_note_simps)

lemma emits_handleEnter: "emits s (handleEnter el opts s ev)"
  by (simp add: handleEnter_def emits_clickEnd emits_same)

lemma dispatched_clickStart: "dispatched (clickStart s ev) = dispatched s"
  by (simp add: clickStart_def setTimeout_def Let_def split: option.splits prod.splits)

lemma emits_run_listener: "emits s (run_listener h s ev)"
  by (cases h) (simp_all add: emits_same emits_clickEnd emits_handleEnter dispatched_clickStart)

lemma emits_fold_listeners:
  "emits s (fold (\<lambda>(ty, h) t. if ty = ev_type ev then run_listener h t ev else t) xs s)"
proof (induction xs arbitrary: s)
  case Nil
  then show ?case by (simp add: emits_same)
next
  case (Cons a xs)
  obtain ty h where a: "a = (ty, h)" by (cases a)
  have "emits s (if ty = ev_type ev then run_listener h s ev else s)"
    by (simp add: emits_run_listener emits_same)
  from emits_trans [OF this Cons.IH] show ?case by (simp add: a)
qed

lemma emits_dispatchEvent: "emits s (dispatchEvent el ev s)"
  by (simp add: dispatchEvent_def emits_fold_listeners)

lemma emits_run_callback: "emits s (run_callback c s)"
  by (cases c) (simp_all add: emits_same emits_one startAnimation_def fireEvent_def
      action_note_simps)

lemma emits_run_timers: "emits s (run_timers t s)"
proof (rule run_timers_preserves)
  show "emits s s" by (simp add: emits_same)
next
  fix x u
  assume u: "emits s u"
  let ?v = "u\<lparr>timers := remove1 x (timers u), now := max (now u) (due x)\<rparr>"
  have "emits u ?v" by (simp add: emits_same)
  from emits_trans [OF u emits_trans [OF this emits_run_callback]]
  show "emits s (run_callback (cb x) ?v)" .
qed

lemma emits_advance: "emits s (advance d s)"
proof -
  have "emits (run_timers (now s + d) s) (advance d s)"
    by (simp add: advance_def Let_def emits_same)
  from emits_trans [OF emits_run_timers this] show ?thesis .
qed

lemma dispatched_addEventListener: "dispatched (addEventListener el ty h s) = dispatched s"
  by (simp add: addEventListener_def)

lemma dispatched_bind: "dispatched (bind el opts s) = dispatched s"
  by (simp add: bind_def Let_def dispatched_addEventListener)

lemma dispatched_getActionHandler: "dispatched (getActionHandler s) = dispatched s"
  by (simp add: getActionHandler_def connectedCallback_def constructor_def cancel_actions_def)

lemma emits_step: "emits s (step s i)"
  by (cases i)
    (simp_all add: emits_advance emits_dispatchEvent emits_same frame_dispatchDocument
      actionHandlerBind_def dispatched_bind dispatched_getActionHandler)

lemma emits_run: "emits s (run s ins)"
proof (induction ins arbitrary: s)
  case Nil
  then show ?case by (simp add: run_Nil emits_same)
next
  case (Cons i ins)
  from emits_trans [OF emits_step Cons.IH] show ?case by (simp add: run_Cons)
qed

text \<open>
  C9. Whatever happens to a page, every notification the recognizer adds to those already
  dispatched is an \<^verbatim>\<open>action\<close> event whose detail has the single field \<^verbatim>\<open>action\<close>, with the
  value \<^verbatim>\<open>tap\<close>, \<^verbatim>\<open>hold\<close> or \<^verbatim>\<open>double_tap\<close>. On a freshly loaded page these are all the
  notifications there are.
\<close>

theorem only_three_action_kinds:
  "(\<exists>ns. dispatched (run s ins) = dispatched s @ ns \<and>
      (\<forall>n\<in>set ns. name n = ''action'' \<and>
         (payload n = [(''action'', ''tap'')] \<or> payload n = [(''action'', ''hold'')] \<or>
          payload n = [(''action'', ''double_tap'')]))) \<and>
   (\<forall>n\<in>set (dispatched (run (page0 ua ots mtp) ins)). name n = ''action'' \<and>
      (payload n = [(''action'', ''tap'')] \<or> payload n = [(''action'', ''hold'')] \<or>
       payload n = [(''action'', ''double_tap'')]))"
proof
  from emits_run [of s ins]
  show "\<exists>ns. dispatched (run s ins) = dispatched s @ ns \<and>
      (\<forall>n\<in>set ns. name n = ''action'' \<and>
         (payload n = [(''action'', ''tap'')] \<or> payload n = [(''action'', ''hold'')] \<or>
          payload n = [(''action'', ''double_tap'')]))"
    by (simp add: emits_def action_note_def)
next
  from emits_run [of "page0 ua ots mtp" ins]
  show "\<forall>n\<in>set (dispatched (run (page0 ua ots mtp) ins)). name n = ''action'' \<and>
      (payload n = [(''action'', ''tap'')] \<or> payload n = [(''action'', ''hold'')] \<or>
       payload n = [(''action'', ''double_tap'')])"
    by (auto simp: emits_def action_note_def page0_def)
qed

theorem only_three_action_kinds_witness:
  "dispatched (run desktop
      [BindCall 3 double_click, BindCall 4 single_click,
       Fire 4 (mouse_event ''mousedown'' 1), Wait 100, Fire 4 (mouse_event ''click'' 1),
       Wait 200, Fire 4 (mouse_event ''mousedown'' 1), Wait 600,
       Fire 4 (mouse_event ''click'' 1), Wait 200,
       Fire 3 (mouse_event ''mousedown'' 2), Wait 50, Fire 3 (mouse_event ''click'' 2)]) =
     [Notification 100 4 ''action'' [(''action'', ''tap'')],
      Notification 900 4 ''action'' [(''action'', ''hold'')],
      Notification 1150 3 ''action'' [(''action'', ''double_tap'')]] \<and>
   list_all (\<lambda>n. name n = ''action'' \<and>
      (payload n = [(''action'', ''tap'')] \<or> payload n = [(''action'', ''hold'')] \<or>
       payload n = [(''action'', ''double_tap'')]))
     (dispatched (run desktop
      [BindCall 3 double_click, BindCall 4 single_click,
       Fire 4 (mouse_event ''mousedown'' 1), Wait 100, Fire 4 (mouse_event ''click'' 1),
       Wait 200, Fire 4 (mouse_event ''mousedown'' 1), Wait 600,
       Fire 4 (mouse_event ''click'' 1), Wait 200,
       Fire 3 (mouse_event ''mousedown'' 2), Wait 50, Fire 3 (mouse_event ''click'' 2)]))"
proof -
  let ?ins = "[BindCall 3 double_click, BindCall 4 single_click,
       Fire 4 (mouse_event ''mousedown'' 1), Wait 100, Fire 4 (mouse_event ''click'' 1),
       Wait 200, Fire 4 (mouse_event ''mousedown'' 1), Wait 600,
       Fire 4 (mouse_event ''click'' 1), Wait 200,
       Fire 3 (mouse_event ''mousedown'' 2), Wait 50, Fire 3 (mouse_event ''click'' 2)]"
  have 1: "dispatched (run desktop ?ins) =
     [Notification 100 4 ''action'' [(''action'', ''tap'')],
      Notification 900 4 ''action'' [(''action'', ''hold'')],
      Notification 1150 3 ''action'' [(''action'', ''double_tap'')]]"
    by code_simp
  have 2: "list_all (\<lambda>n. name n = ''action'' \<and>
      (payload n = [(''action'', ''tap'')] \<or> payload n = [(''action'', ''hold'')] \<or>
       payload n = [(''action'', ''double_tap'')])) (dispatched (run desktop ?ins))"
    using only_three_action_kinds [where ua = "''Mozilla/5.0 (X11; Linux x86_64)''"
        and ots = False and mtp = 0 and ins = ?ins, THEN conjunct2]
    unfolding list_all_iff desktop_def .
  from 1 2 show ?thesis by (rule conjI)
qed

section \<open>Pages that can be reached\<close>

lemma timers_clearTimeout_filter:
  "timers (clearTimeout h s) = filter (\<lambda>t. h \<noteq> Some (tid t)) (timers s)"
  by (cases h) (auto simp: clearTimeout_def intro: filter_cong)

lemma length_filter_filter_le:
  "length (filter P (filter Q xs)) \<le> length (filter P xs)"
  by (induction xs) auto

lemma count_clearTimeout: "count_timers P (clearTimeout h s) \<le> count_timers P s"
  by (simp add: count_timers_def timers_clearTimeout_filter length_filter_filter_le
      del: filter_filter)

lemma count_frame:
  "timers s' = timers s \<Longrightarrow> count_timers P s' = count_timers P s"
  by (simp add: count_timers_def)

lemma clickStart_cooldown: "cooldownStart s \<Longrightarrow> clickStart s ev = s"
  by (simp add: clickStart_def)

lemma count_clickStart:
  "count_timers (\<lambda>c. c = CooldownEndReset) (clickStart s ev) =
     count_timers (\<lambda>c. c = CooldownEndReset) s"
  "\<not> cooldownStart s \<Longrightarrow>
   count_timers (\<lambda>c. c = CooldownStartReset) (clickStart s ev) \<le>
     Suc (count_timers (\<lambda>c. c = CooldownStartReset) s)"
  by (simp_all add: clickStart_def setTimeout_def Let_def count_timers_def
      split: option.splits prod.splits)

lemma flags_clickStart:
  "cooldownEnd (clickStart s ev) = cooldownEnd s"
  "\<not> cooldownStart s \<Longrightarrow> \<not> cooldownStart (clickStart s ev) \<Longrightarrow>
     timers (clickStart s ev) = timers s"
  by (simp_all add: clickStart_def setTimeout_def Let_def split: option.splits prod.splits)

lemma cooldowns_ok_clickStart: "cooldowns_ok s \<Longrightarrow> cooldowns_ok (clickStart s ev)"
proof (cases "cooldownStart s")
  case True
  assume "cooldowns_ok s"
  with True show ?thesis by (simp add: clickStart_cooldown)
next
  case False
  assume ok: "cooldowns_ok s"
  show ?thesis
  proof (cases "cooldownStart (clickStart s ev)")
    case True
    with ok False count_clickStart(2) [OF False, of ev] show ?thesis
      by (simp add: cooldowns_ok_def count_clickStart(1) flags_clickStart(1) split: if_splits)
  next
    case f: False
    from flags_clickStart(2) [OF False f] ok False f show ?thesis
      by (simp add: cooldowns_ok_def count_timers_def flags_clickStart(1) split: if_splits)
  qed
qed

lemma length_filter_conj_le:
  "length (filter (\<lambda>x. A x \<and> P x) xs) \<le> length (filter P xs)"
  "length (filter (\<lambda>x. A x \<and> B x \<and> P x) xs) \<le> length (filter P xs)"
  "length (filter (\<lambda>x. A x \<and> P x) xs) \<le> Suc (length (filter P xs))"
  "length (filter (\<lambda>x. A x \<and> B x \<and> P x) xs) \<le> Suc (length (filter P xs))"
proof -
  show 1: "length (filter (\<lambda>x. A x \<and> P x) xs) \<le> length (filter P xs)" for A
    by (induction xs) auto
  from 1 [of "\<lambda>x. A x \<and> B x"] show 2: "length (filter (\<lambda>x. A x \<and> B x \<and> P x) xs) \<le> length (filter P xs)"
    by (simp add: conj_assoc)
  from 1 show "length (filter (\<lambda>x. A x \<and> P x) xs) \<le> Suc (length (filter P xs))"
    by (rule le_SucI)
  from 2 show "length (filter (\<lambda>x. A x \<and> B x \<and> P x) xs) \<le> Suc (length (filter P xs))"
    by (rule le_SucI)
qed

lemma clickEnd_cooldown: "cooldownEnd s \<Longrightarrow> clickEnd el opts s ev = s"
  by (simp add: clickEnd_def)

lemma clickEnd_cases: "clickEnd el opts s ev = s \<or> cooldownEnd (clickEnd el opts s ev)"
  by (simp add: release_defs frame_clearTimeout split: prod.splits)

lemma flags_clickEnd:
  "cooldownStart (clickEnd el opts s ev) = cooldownStart s"
  "\<not> cooldownEnd (clickEnd el opts s ev) \<Longrightarrow> clickEnd el opts s ev = s"
  using clickEnd_cases [of el opts s ev]
  by (simp_all add: release_defs frame_clearTimeout split: prod.splits)

lemma count_clickEnd:
  "\<not> P CooldownEndReset \<Longrightarrow> (\<And>e. \<not> P (TapFire e)) \<Longrightarrow>
   count_timers P (clickEnd el opts s ev) \<le> count_timers P s"
  "count_timers (\<lambda>c. c = CooldownEndReset) (clickEnd el opts s ev) \<le>
     Suc (count_timers (\<lambda>c. c = CooldownEndReset) s)"
  by (simp_all add: release_defs frame_clearTimeout timers_clearTimeout_filter count_timers_def
      length_filter_conj_le)

lemma cooldowns_ok_clickEnd: "cooldowns_ok s \<Longrightarrow> cooldowns_ok (clickEnd el opts s ev)"
proof (cases "cooldownEnd (clickEnd el opts s ev)")
  case False
  assume "cooldowns_ok s"
  with flags_clickEnd(2) [OF False] show ?thesis by simp
next
  case True
  assume ok: "cooldowns_ok s"
  show ?thesis
  proof (cases "cooldownEnd s")
    case True
    with ok show ?thesis by (simp add: clickEnd_cooldown)
  next
    case False
    with ok True count_clickEnd(2) [of el opts s ev]
      count_clickEnd(1) [of "\<lambda>c. c = CooldownStartReset" el opts s ev]
    show ?thesis
      by (simp add: cooldowns_ok_def flags_clickEnd(1) split: if_splits)
  qed
qed

lemma cooldowns_ok_handleEnter: "cooldowns_ok s \<Longrightarrow> cooldowns_ok (handleEnter el opts s ev)"
  by (simp add: handleEnter_def cooldowns_ok_clickEnd)

lemma cooldowns_ok_run_listener: "cooldowns_ok s \<Longrightarrow> cooldowns_ok (run_listener h s ev)"
  by (cases h) (simp_all add: cooldowns_ok_clickStart cooldowns_ok_clickEnd
      cooldowns_ok_handleEnter)

lemma cooldowns_ok_cancelHold: "cooldowns_ok s \<Longrightarrow> cooldowns_ok (cancelHold s)"
  using count_clearTimeout [of "\<lambda>c. c = CooldownStartReset" "timer s" s]
    count_clearTimeout [of "\<lambda>c. c = CooldownEndReset" "timer s" s]
  by (simp add: cooldowns_ok_def cancelHold_def stopAnimation_def count_timers_def
      frame_clearTimeout split: if_splits)

lemma run_timers_preserves_mem:
  "I s \<Longrightarrow>
   (\<And>x u. I u \<Longrightarrow> x \<in> set (timers u) \<Longrightarrow> due x \<le> t \<Longrightarrow>
      I (run_callback (cb x) (u\<lparr>timers := remove1 x (timers u), now := max (now u) (due x)\<rparr>))) \<Longrightarrow>
   I (run_timers t s)"
proof (induction t s rule: run_timers.induct)
  case (1 t s)
  show ?case
  proof (cases "next_due t (timers s)")
    case None
    then show ?thesis using "1.prems"(1) by (simp add: run_timers_none)
  next
    case (Some x)
    then have "x \<in> set (timers s)" "due x \<le> t" by (simp_all add: next_due_Some)
    from "1.prems"(2) [OF "1.prems"(1) this] have "I (run_callback (cb x)
        (s\<lparr>timers := remove1 x (timers s), now := max (now s) (due x)\<rparr>))" .
    from "1.IH" [OF Some this "1.prems"(2)] show ?thesis
      by (simp add: run_timers_some [OF Some])
  qed
qed

lemma length_filter_remove1:
  "x \<in> set xs \<Longrightarrow>
   length (filter P (remove1 x xs)) =
     (if P x then length (filter P xs) - 1 else length (filter P xs))"
  by (simp add: filter_remove1 length_remove1 remove1_idem)

lemma cooldowns_ok_fire:
  assumes "cooldowns_ok u" "x \<in> set (timers u)"
  shows "cooldowns_ok
     (run_callback (cb x) (u\<lparr>timers := remove1 x (timers u), now := n\<rparr>))"
proof (cases "cb x")
  case (HoldFire a b)
  with assms show ?thesis
    by (simp add: cooldowns_ok_def count_timers_def startAnimation_def length_filter_remove1
        split: if_splits)
next
  case CooldownStartReset
  with assms show ?thesis
    by (simp add: cooldowns_ok_def count_timers_def length_filter_remove1 split: if_splits)
next
  case CooldownEndReset
  with assms show ?thesis
    by (simp add: cooldowns_ok_def count_timers_def length_filter_remove1 split: if_splits)
next
  case (TapFire e)
  with assms show ?thesis
    by (simp add: cooldowns_ok_def count_timers_def fireEvent_def length_filter_remove1
        split: if_splits)
qed

lemma cooldowns_ok_run_timers: "cooldowns_ok s \<Longrightarrow> cooldowns_ok (run_timers t s)"
  by (rule run_timers_preserves_mem) (simp_all add: cooldowns_ok_fire)

lemma cooldowns_ok_now: "cooldowns_ok (s\<lparr>now := n\<rparr>) = cooldowns_ok s"
  by (simp add: cooldowns_ok_def count_timers_def)

lemma cooldowns_ok_advance: "cooldowns_ok s \<Longrightarrow> cooldowns_ok (advance d s)"
  by (simp add: advance_def Let_def cooldowns_ok_now cooldowns_ok_run_timers)

lemma frame_clickStart_more:
  "in_body (clickStart s ev) = in_body s"
  "holdTime (clickStart s ev) = holdTime s"
  "now (clickStart s ev) = now s"
  by (simp_all add: clickStart_def setTimeout_def Let_def split: option.splits prod.splits)

lemma frame_clickEnd:
  "elements (clickEnd el opts s ev) = elements s"
  "userAgent (clickEnd el opts s ev) = userAgent s"
  "in_body (clickEnd el opts s ev) = in_body s"
  "holdTime (clickEnd el opts s ev) = holdTime s"
  "now (clickEnd el opts s ev) = now s"
  by (simp_all add: release_defs frame_clearTimeout split: prod.splits)

lemma frame_run_listener:
  "elements (run_listener h s ev) = elements s"
  "userAgent (run_listener h s ev) = userAgent s"
  "in_body (run_listener h s ev) = in_body s"
  "holdTime (run_listener h s ev) = holdTime s"
  "now (run_listener h s ev) = now s"
  by (cases h; simp add: frame_clickStart frame_clickStart_more frame_clickEnd handleEnter_def)+

lemma fold_listeners_preserves:
  "I s \<Longrightarrow> (\<And>h t. I t \<Longrightarrow> I (run_listener h t ev)) \<Longrightarrow>
   I (fold (\<lambda>(ty, h) t. if ty = ev_type ev then run_listener h t ev else t) xs s)"
proof (induction xs arbitrary: s)
  case Nil
  then show ?case by simp
next
  case (Cons a xs)
  obtain ty h where a: "a = (ty, h)" by (cases a)
  have "I (if ty = ev_type ev then run_listener h s ev else s)"
    using Cons.prems by simp
  from Cons.IH [OF this Cons.prems(2)] show ?case by (simp add: a)
qed

lemma dispatchEvent_preserves:
  "I s \<Longrightarrow> (\<And>h t. I t \<Longrightarrow> I (run_listener h t ev)) \<Longrightarrow> I (dispatchEvent el ev s)"
  unfolding dispatchEvent_def by (rule fold_listeners_preserves)

lemma frame_dispatchEvent:
  "elements (dispatchEvent el ev s) = elements s"
  "userAgent (dispatchEvent el ev s) = userAgent s"
  "in_body (dispatchEvent el ev s) = in_body s"
  "holdTime (dispatchEvent el ev s) = holdTime s"
  "now (dispatchEvent el ev s) = now s"
  by (rule dispatchEvent_preserves; simp add: frame_run_listener)+

lemma frame_bind:
  "timers (bind el opts s) = timers s"
  "cooldownStart (bind el opts s) = cooldownStart s"
  "cooldownEnd (bind el opts s) = cooldownEnd s"
  "holdTime (bind el opts s) = holdTime s"
  "userAgent (bind el opts s) = userAgent s"
  "now (bind el opts s) = now s"
  by (simp_all add: bind_def Let_def addEventListener_def)

lemma frame_getActionHandler:
  "timers (getActionHandler s) = timers s"
  "elements (getActionHandler s) = elements s"
  "userAgent (getActionHandler s) = userAgent s"
  "now (getActionHandler s) = now s"
  by (simp_all add: getActionHandler_def connectedCallback_def constructor_def
      cancel_actions_def)

lemma cooldowns_ok_frame:
  "timers s' = timers s \<Longrightarrow> cooldownStart s' = cooldownStart s \<Longrightarrow>
   cooldownEnd s' = cooldownEnd s \<Longrightarrow> cooldowns_ok s' = cooldowns_ok s"
  by (simp add: cooldowns_ok_def count_timers_def)

lemma page_ok_getActionHandler: "page_ok s \<Longrightarrow> page_ok (getActionHandler s)"
proof (cases "in_body s")
  case True
  assume "page_ok s"
  with True show ?thesis by (simp add: getActionHandler_in_body)
next
  case False
  assume "page_ok s"
  with False have "timers s = []" by (simp add: page_ok_def)
  with False show ?thesis
    by (simp add: getActionHandler_def page_ok_def cooldowns_ok_def count_timers_def
        connectedCallback_def constructor_def cancel_actions_def)
qed

lemma page_ok_bind:
  assumes "page_ok s" "in_body s"
  shows "page_ok (bind el opts s)"
proof -
  have "cooldowns_ok (bind el opts s) = cooldowns_ok s"
    by (rule cooldowns_ok_frame) (simp_all add: frame_bind)
  with assms show ?thesis
    by (simp add: page_ok_def frame_bind in_body_bind)
qed

lemma page_ok_step: "page_ok s \<Longrightarrow> page_ok (step s i)"
proof (cases i)
  case (Wait d)
  assume "page_ok s"
  then show ?thesis
    by (simp add: Wait page_ok_def cooldowns_ok_advance frame_advance timers_advance)
next
  case (Fire el ev)
  assume ok: "page_ok s"
  show ?thesis
  proof (cases "in_body s")
    case False
    with ok have "dispatchEvent el ev s = s" by (simp add: page_ok_def dispatchEvent_def)
    with ok show ?thesis by (simp add: Fire)
  next
    case True
    with ok have "cooldowns_ok s" by (simp add: page_ok_def)
    then have "cooldowns_ok (dispatchEvent el ev s)"
      by (rule dispatchEvent_preserves) (rule cooldowns_ok_run_listener)
    with ok True show ?thesis
      by (simp add: Fire page_ok_def frame_dispatchEvent)
  qed
next
  case (DocFire ty)
  assume ok: "page_ok s"
  have "timers s = [] \<longrightarrow> timers (cancelHold s) = []"
    by (simp add: cancelHold_def stopAnimation_def timers_clearTimeout_filter)
  with ok show ?thesis
    by (simp add: DocFire page_ok_def dispatchDocument_eq frame_cancelHold
        cooldowns_ok_cancelHold)
next
  case (BindCall el opts)
  assume "page_ok s"
  then show ?thesis
    by (simp add: BindCall actionHandlerBind_def page_ok_bind page_ok_getActionHandler
        in_body_getActionHandler)
qed

lemma page_ok_run: "page_ok s \<Longrightarrow> page_ok (run s ins)"
  by (induction ins arbitrary: s) (simp_all add: run_Nil run_Cons page_ok_step)

lemma page_ok_page0: "page_ok (page0 ua ots mtp)"
  by (simp add: page_ok_def cooldowns_ok_def count_timers_def page0_def)

lemma page_ok_reachable: "page_ok (run (page0 ua ots mtp) ins)"
  by (simp add: page_ok_run page_ok_page0)


section \<open>The cooldowns\<close>

lemma userAgent_step: "userAgent (step s i) = userAgent s"
  by (cases i) (simp_all add: frame_advance frame_dispatchEvent frame_dispatchDocument
      actionHandlerBind_def frame_bind frame_getActionHandler)

lemma now_step: "now (step s i) = now s + elapsed [i]"
  by (cases i) (simp_all add: now_advance frame_dispatchEvent frame_dispatchDocument
      actionHandlerBind_def frame_bind frame_getActionHandler)

lemma in_body_step: "in_body s \<Longrightarrow> in_body (step s i)"
  by (cases i) (simp_all add: frame_advance frame_dispatchEvent frame_dispatchDocument
      actionHandlerBind_def in_body_bind in_body_getActionHandler)

lemma elements_bind_other: "e \<noteq> el \<Longrightarrow> elements (bind e opts s) el = elements s el"
  by (simp add: bind_def Let_def addEventListener_def)

lemma wired_step: "wired s el opts \<Longrightarrow> wired (step s i) el opts"
proof (cases i)
  case (Wait d)
  assume "wired s el opts"
  then show ?thesis by (simp add: Wait wired_advance)
next
  case (Fire e ev)
  assume "wired s el opts"
  with wired_cong [OF frame_dispatchEvent(1,2), of e ev s el opts] show ?thesis
    by (simp add: Fire)
next
  case (DocFire ty)
  assume "wired s el opts"
  with wired_cong [OF frame_dispatchDocument(4,5), of ty s el opts] show ?thesis
    by (simp add: DocFire)
next
  case (BindCall e ops)
  assume w: "wired s el opts"
  let ?g = "getActionHandler s"
  have g: "wired ?g el opts"
    using wired_cong [OF frame_getActionHandler(2,3), of s el opts] w by simp
  show ?thesis
  proof (cases "e = el")
    case True
    with g have "bind e ops ?g = ?g" by (simp add: wired_def bind_marked)
    with g show ?thesis by (simp add: BindCall actionHandlerBind_def)
  next
    case False
    then have "elements (bind e ops ?g) el = elements ?g el" by (rule elements_bind_other)
    with g show ?thesis
      by (simp add: BindCall actionHandlerBind_def wired_def isIOS13_def frame_bind)
  qed
qed

lemma wired_run: "wired s el opts \<Longrightarrow> wired (run s ins) el opts"
  by (induction ins arbitrary: s) (simp_all add: run_Nil run_Cons wired_step)

lemma userAgent_run: "userAgent (run s ins) = userAgent s"
  by (induction ins arbitrary: s) (simp_all add: run_Nil run_Cons userAgent_step)

lemma wired_in_body: "page_ok s \<Longrightarrow> wired s el opts \<Longrightarrow> in_body s"
  by (auto simp: page_ok_def wired_def bound_listeners_def)

lemma reset_clickEnd:
  "x \<in> set (timers (clickEnd el opts s ev)) \<Longrightarrow> cb x = CooldownStartReset \<Longrightarrow>
   x \<in> set (timers s)"
  by (auto simp: release_defs frame_clearTimeout timers_clearTimeout_filter
      split: prod.splits if_splits)

lemma count_filter_timers:
  "count_timers P (s\<lparr>timers := filter Q (timers s)\<rparr>) \<le> count_timers P s"
  by (simp add: count_timers_def length_filter_filter_le del: filter_filter)

lemma count_advance: "count_timers P (advance d s) \<le> count_timers P s"
  by (simp add: count_timers_def timers_advance length_filter_filter_le del: filter_filter)

lemma count_cancelHold: "count_timers P (cancelHold s) \<le> count_timers P s"
  using count_clearTimeout [of P "timer s" s]
  by (simp add: cancelHold_def stopAnimation_def count_timers_def)

lemma start_cooling_listener:
  "start_cooling D N s \<Longrightarrow> start_cooling D N (run_listener h s ev)"
proof (cases h)
  case ContextMenu
  assume "start_cooling D N s"
  then show ?thesis by (simp add: ContextMenu)
next
  case ClickStart
  assume "start_cooling D N s"
  then show ?thesis by (simp add: ClickStart start_cooling_def clickStart_cooldown)
next
  case (ClickEnd el opts)
  assume c: "start_cooling D N s"
  have "count_timers is_hold (clickEnd el opts s ev) \<le> count_timers is_hold s"
    by (rule count_clickEnd(1)) simp_all
  with c reset_clickEnd [of _ el opts s ev] show ?thesis
    by (auto simp: ClickEnd start_cooling_def flags_clickEnd(1) frame_clickEnd)
next
  case (HandleEnter el opts)
  assume c: "start_cooling D N s"
  have "count_timers is_hold (clickEnd el opts s ev) \<le> count_timers is_hold s"
    by (rule count_clickEnd(1)) simp_all
  with c reset_clickEnd [of _ el opts s ev] show ?thesis
    by (auto simp: HandleEnter handleEnter_def start_cooling_def flags_clickEnd(1)
        frame_clickEnd)
qed

lemma start_cooling_step:
  assumes "start_cooling D N s" "now s + elapsed [i] < D"
  shows "start_cooling D N (step s i)"
proof (cases i)
  case (Wait d)
  have "count_timers is_hold (advance d s) \<le> count_timers is_hold s"
    by (rule count_advance)
  with assms show ?thesis
    by (auto simp: Wait start_cooling_def cooldownStart_advance frame_advance timers_advance)
next
  case (Fire el ev)
  from assms(1) show ?thesis
    unfolding Fire step.simps
    by (rule dispatchEvent_preserves) (rule start_cooling_listener)
next
  case (DocFire ty)
  have "count_timers is_hold (cancelHold s) \<le> count_timers is_hold s"
    by (rule count_cancelHold)
  moreover have "set (timers (cancelHold s)) \<subseteq> set (timers s)"
    using timers_clearTimeout [of "timer s" s] by (simp add: cancelHold_def stopAnimation_def)
  ultimately show ?thesis
    using assms(1)
    by (auto simp: DocFire start_cooling_def dispatchDocument_eq frame_cancelHold)
next
  case (BindCall e ops)
  from assms(1) have "in_body s" by (simp add: start_cooling_def)
  with assms(1) show ?thesis
    by (simp add: BindCall actionHandlerBind_def getActionHandler_in_body start_cooling_def
        frame_bind in_body_bind count_timers_def)
qed

lemma start_cooling_run:
  "start_cooling D N s \<Longrightarrow> now s + elapsed ins < D \<Longrightarrow> start_cooling D N (run s ins)"
proof (induction ins arbitrary: s)
  case Nil
  then show ?case by (simp add: run_Nil)
next
  case (Cons i ins)
  have e: "elapsed (i # ins) = elapsed [i] + elapsed ins"
    by (cases i) simp_all
  with Cons.prems have "start_cooling D N (step s i)"
    by (intro start_cooling_step) simp_all
  moreover have "now (step s i) + elapsed ins < D"
    using Cons.prems(2) e by (simp add: now_step)
  ultimately show ?case
    using Cons.IH by (simp add: run_Cons)
qed

text \<open>
  C6. On a page reached from a freshly loaded one, let a press-start on a bound element find
  the start cooldown off: it is processed, it arms the hold timer. Whatever happens during
  the next 100ms (less than 100ms of waiting in all, any events and bindings in between), the
  start cooldown stays on, so a second press-start on a bound element is discarded: it leaves
  the page as it is. After the pair at most one hold timer more is queued than before it.
\<close>

theorem start_cooldown_discards_second_start:
  assumes "s = run (page0 ua ots mtp) ins0"
    "wired s el opts" "\<not> cooldownStart s" "press_start s ev1" "coords ev1 = Some (x, y)"
    "elapsed ins < 100" "wired s el2 opts2" "press_start s ev2"
  shows "timer (step s (Fire el ev1)) = Some (next_id s) \<and>
     Timer (next_id s) (now s + 500) (HoldFire x y) \<in> set (timers (step s (Fire el ev1))) \<and>
     cooldownStart (run s (Fire el ev1 # ins)) \<and>
     step (run s (Fire el ev1 # ins)) (Fire el2 ev2) = run s (Fire el ev1 # ins) \<and>
     count_timers is_hold (run s (Fire el ev1 # ins @ [Fire el2 ev2])) \<le>
       Suc (count_timers is_hold s)"
proof -
  have ok: "page_ok s" unfolding assms(1) by (rule page_ok_reachable)
  from wired_in_body [OF ok assms(2)] have ib: "in_body s" .
  with ok have ht: "holdTime s = 500" by (simp add: page_ok_def)
  from ok assms(3) have "filter (\<lambda>x. cb x = CooldownStartReset) (timers s) = []"
    by (simp add: page_ok_def cooldowns_ok_def count_timers_def)
  then have none: "\<forall>x\<in>set (timers s). cb x \<noteq> CooldownStartReset"
    by (simp add: filter_empty_conv)
  define s1 where "s1 = clickStart s ev1"
  have d1: "dispatchEvent el ev1 s = s1"
    unfolding s1_def using assms(2,4) by (rule dispatch_press_start)
  have s1: "s1 = s\<lparr>held := False, timer := Some (next_id s), cooldownStart := True,
       timers := timers s @ [Timer (next_id s) (now s + holdTime s) (HoldFire x y),
                             Timer (Suc (next_id s)) (now s + 100) CooldownStartReset],
       next_id := Suc (Suc (next_id s))\<rparr>"
    unfolding s1_def using assms(3,5) by (rule clickStart_fresh)
  have sc: "start_cooling (now s + 100) (Suc (count_timers is_hold s)) s1"
    using none ib by (simp add: s1 start_cooling_def count_timers_def)
  have "now s1 + elapsed ins < now s + 100"
    using assms(6) by (simp add: s1)
  with sc have sc2: "start_cooling (now s + 100) (Suc (count_timers is_hold s)) (run s1 ins)"
    by (rule start_cooling_run)
  have r: "run s (Fire el ev1 # ins) = run s1 ins"
    by (simp add: run_Cons d1)
  have e1: "elements s1 = elements s" "userAgent s1 = userAgent s"
    by (simp_all add: s1)
  have "wired s1 el2 opts2"
    using wired_cong [OF e1] assms(7) by simp
  then have "wired (run s1 ins) el2 opts2" by (rule wired_run)
  moreover have "userAgent (run s1 ins) = userAgent s"
    by (simp add: userAgent_run e1)
  from press_start_cong [OF this] assms(8) have "press_start (run s1 ins) ev2" by simp
  ultimately have "dispatchEvent el2 ev2 (run s1 ins) = clickStart (run s1 ins) ev2"
    by (rule dispatch_press_start)
  also have "\<dots> = run s1 ins"
    using sc2 by (simp add: start_cooling_def clickStart_cooldown)
  finally have d2: "dispatchEvent el2 ev2 (run s1 ins) = run s1 ins" .
  have r2: "run s (Fire el ev1 # ins @ [Fire el2 ev2]) = run s1 ins"
    by (simp add: run_Cons d1 run_append [of s1 ins "[Fire el2 ev2]"] run_Nil d2)
  have a: "timer s1 = Some (next_id s)"
    "Timer (next_id s) (now s + 500) (HoldFire x y) \<in> set (timers s1)"
    by (simp_all add: s1 ht)
  have b: "cooldownStart (run s1 ins)"
    "count_timers is_hold (run s1 ins) \<le> Suc (count_timers is_hold s)"
    using sc2 by (simp_all add: start_cooling_def)
  show ?thesis
    using a b by (simp add: r r2 d2 d1)
qed

theorem start_cooldown_discards_second_start_witness:
  "timer (step (run desktop [BindCall 3 single_click])
      (Fire 3 (touch_event ''touchstart'' [(11, 12)]))) = Some 1 \<and>
   cooldownStart (run (run desktop [BindCall 3 single_click])
      (Fire 3 (touch_event ''touchstart'' [(11, 12)]) #
       [Wait 20, Fire 3 (touch_event ''touchend'' []), Wait 30])) \<and>
   step (run (run desktop [BindCall 3 single_click])
      (Fire 3 (touch_event ''touchstart'' [(11, 12)]) #
       [Wait 20, Fire 3 (touch_event ''touchend'' []), Wait 30]))
     (Fire 3 (mouse_event ''mousedown'' 1)) =
   run (run desktop [BindCall 3 single_click])
      (Fire 3 (touch_event ''touchstart'' [(11, 12)]) #
       [Wait 20, Fire 3 (touch_event ''touchend'' []), Wait 30]) \<and>
   count_timers is_hold (run (run desktop [BindCall 3 single_click])
      (Fire 3 (touch_event ''touchstart'' [(11, 12)]) #
       [Wait 20, Fire 3 (touch_event ''touchend'' []), Wait 30] @
       [Fire 3 (mouse_event ''mousedown'' 1)])) \<le> 1"
proof -
  let ?s = "run desktop [BindCall 3 single_click]"
  have h: "?s = run (page0 ''Mozilla/5.0 (X11; Linux x86_64)'' False 0) [BindCall 3 single_click]"
    "wired ?s 3 single_click" "\<not> cooldownStart ?s"
    "press_start ?s (touch_event ''touchstart'' [(11, 12)])"
    "coords (touch_event ''touchstart'' [(11, 12)]) = Some (11, 12)"
    "elapsed [Wait 20, Fire 3 (touch_event ''touchend'' []), Wait 30] < 100"
    "wired ?s 3 single_click" "press_start ?s (mouse_event ''mousedown'' 1)"
    by (simp add: desktop_def, code_simp+)
  have v: "next_id ?s = 1" "count_timers is_hold ?s = 0"
    by code_simp+
  from start_cooldown_discards_second_start [OF h] show ?thesis
    by (simp add: v)
qed

section \<open>Stray and duplicate press-ends\<close>

lemma reset_clickStart:
  "x \<in> set (timers (clickStart s ev)) \<Longrightarrow> cb x = CooldownEndReset \<Longrightarrow>
   x \<in> set (timers s)"
  by (auto simp: clickStart_def setTimeout_def Let_def split: option.splits prod.splits if_splits)

lemma end_cooling_listener:
  "end_cooling D s \<Longrightarrow> end_cooling D (run_listener h s ev)"
proof (cases h)
  case ContextMenu
  assume "end_cooling D s"
  then show ?thesis by (simp add: ContextMenu)
next
  case ClickStart
  assume "end_cooling D s"
  with reset_clickStart [of _ s ev] show ?thesis
    by (auto simp: ClickStart end_cooling_def flags_clickStart(1) frame_clickStart_more)
next
  case (ClickEnd el opts)
  assume "end_cooling D s"
  then show ?thesis by (simp add: ClickEnd end_cooling_def clickEnd_cooldown)
next
  case (HandleEnter el opts)
  assume "end_cooling D s"
  then show ?thesis
    by (simp add: HandleEnter handleEnter_def end_cooling_def clickEnd_cooldown)
qed

lemma end_cooling_step:
  assumes "end_cooling D s" "now s + elapsed [i] < D"
  shows "end_cooling D (step s i)"
proof (cases i)
  case (Wait d)
  with assms show ?thesis
    by (auto simp: end_cooling_def cooldownEnd_advance frame_advance timers_advance)
next
  case (Fire el ev)
  from assms(1) show ?thesis
    unfolding Fire step.simps
    by (rule dispatchEvent_preserves) (rule end_cooling_listener)
next
  case (DocFire ty)
  have "set (timers (cancelHold s)) \<subseteq> set (timers s)"
    using timers_clearTimeout [of "timer s" s] by (simp add: cancelHold_def stopAnimation_def)
  then show ?thesis
    using assms(1)
    by (auto simp: DocFire end_cooling_def dispatchDocument_eq frame_cancelHold)
next
  case (BindCall e ops)
  from assms(1) have "in_body s" by (simp add: end_cooling_def)
  with assms(1) show ?thesis
    by (simp add: BindCall actionHandlerBind_def getActionHandler_in_body end_cooling_def
        frame_bind in_body_bind)
qed

lemma end_cooling_run:
  "end_cooling D s \<Longrightarrow> now s + elapsed ins < D \<Longrightarrow> end_cooling D (run s ins)"
proof (induction ins arbitrary: s)
  case Nil
  then show ?case by (simp add: run_Nil)
next
  case (Cons i ins)
  have e: "elapsed (i # ins) = elapsed [i] + elapsed ins"
    by (cases i) simp_all
  with Cons.prems have "end_cooling D (step s i)"
    by (intro end_cooling_step) simp_all
  moreover have "now (step s i) + elapsed ins < D"
    using Cons.prems(2) e by (simp add: now_step)
  ultimately show ?case
    using Cons.IH by (simp add: run_Cons)
qed

lemma clickEnd_stray:
  "(ev_type ev = ''touchend'' \<or> ev_type ev = ''touchcancel'') \<and> timer s = None \<Longrightarrow>
   clickEnd el opts s ev = s"
  by (simp add: clickEnd_def)

lemma clickEnd_processed:
  assumes "\<not> cooldownEnd s"
    "timer s \<noteq> None \<or> ev_type ev \<noteq> ''touchend'' \<and> ev_type ev \<noteq> ''touchcancel''"
  shows "cooldownEnd (clickEnd el opts s ev)"
    and "\<forall>x\<in>set (timers (clickEnd el opts s ev)).
      cb x = CooldownEndReset \<longrightarrow> x \<in> set (timers s) \<or> due x = now s + 100"
  using assms
  by (auto simp: release_defs frame_clearTimeout timers_clearTimeout_filter split: prod.splits)

lemma release_discarded:
  assumes "wired s el opts" "cooldownEnd s" "press_end s ev \<or> ev_type ev = ''keyup''"
  shows "dispatchEvent el ev s = s"
  using assms(3)
proof
  assume "press_end s ev"
  with assms(1) have "dispatchEvent el ev s = clickEnd el opts s ev"
    by (rule dispatch_press_end)
  with assms(2) show ?thesis by (simp add: clickEnd_cooldown)
next
  assume "ev_type ev = ''keyup''"
  with assms(1) have "dispatchEvent el ev s = handleEnter el opts s ev"
    by (rule dispatch_keyup)
  with assms(2) show ?thesis by (simp add: handleEnter_def clickEnd_cooldown)
qed

lemma first_release_cooling:
  assumes "page_ok s" "wired s el opts" "\<not> cooldownEnd s"
    "press_end s ev1 \<or> ev_type ev1 = ''keyup'' \<and> keyCode ev1 = 13"
    "timer s \<noteq> None \<or> ev_type ev1 \<noteq> ''touchend'' \<and> ev_type ev1 \<noteq> ''touchcancel''"
  shows "end_cooling (now s + 100) (dispatchEvent el ev1 s)"
    and "now (dispatchEvent el ev1 s) = now s"
proof -
  have d: "dispatchEvent el ev1 s = clickEnd el opts s ev1"
    using assms(4)
  proof
    assume "press_end s ev1"
    with assms(2) show ?thesis by (rule dispatch_press_end)
  next
    assume "ev_type ev1 = ''keyup'' \<and> keyCode ev1 = 13"
    with assms(2) show ?thesis by (simp add: dispatch_keyup handleEnter_def)
  qed
  from assms(1,3) have "filter (\<lambda>x. cb x = CooldownEndReset) (timers s) = []"
    by (simp add: page_ok_def cooldowns_ok_def count_timers_def)
  then have none: "\<forall>x\<in>set (timers s). cb x \<noteq> CooldownEndReset"
    by (simp add: filter_empty_conv)
  from wired_in_body [OF assms(1,2)] have ib: "in_body s" .
  from clickEnd_processed [OF assms(3,5), of el opts] none ib
  show "end_cooling (now s + 100) (dispatchEvent el ev1 s)"
    by (auto simp: d end_cooling_def frame_clickEnd)
  show "now (dispatchEvent el ev1 s) = now s"
    by (simp add: frame_dispatchEvent)
qed

text \<open>
  C7. On a bound element, a \<^verbatim>\<open>touchend\<close> or \<^verbatim>\<open>touchcancel\<close> that finds \<^verbatim>\<open>timer\<close> undefined
  leaves the page as it is: nothing is dispatched, nothing changes. So does every press-end
  and every \<^verbatim>\<open>keyup\<close> that finds the end cooldown on. And on a page reached from a freshly
  loaded one the end cooldown is on for 100ms after a press-end that was processed: whatever
  happens during less than 100ms of waiting, a further press-end on a bound element leaves the
  page as it is.
\<close>

theorem stray_end_ignored:
  assumes "wired s el opts"
  shows "((ev_type ev = ''touchend'' \<or> ev_type ev = ''touchcancel'') \<and> timer s = None \<longrightarrow>
        step s (Fire el ev) = s) \<and>
     (cooldownEnd s \<and> (press_end s ev \<or> ev_type ev = ''keyup'') \<longrightarrow>
        step s (Fire el ev) = s) \<and>
     (s = run (page0 ua ots mtp) ins0 \<and> \<not> cooldownEnd s \<and>
      (press_end s ev1 \<or> ev_type ev1 = ''keyup'' \<and> keyCode ev1 = 13) \<and>
      (timer s \<noteq> None \<or> ev_type ev1 \<noteq> ''touchend'' \<and> ev_type ev1 \<noteq> ''touchcancel'') \<and>
      elapsed ins < 100 \<and> wired s el2 opts2 \<and> (press_end s ev \<or> ev_type ev = ''keyup'') \<longrightarrow>
        cooldownEnd (run s (Fire el ev1 # ins)) \<and>
        step (run s (Fire el ev1 # ins)) (Fire el2 ev) = run s (Fire el ev1 # ins))"
proof (intro conjI impI)
  assume a: "(ev_type ev = ''touchend'' \<or> ev_type ev = ''touchcancel'') \<and> timer s = None"
  then have "press_end s ev" by (auto simp: press_end_def)
  with assms have "dispatchEvent el ev s = clickEnd el opts s ev"
    by (rule dispatch_press_end)
  with a show "step s (Fire el ev) = s" by (simp add: clickEnd_stray)
next
  assume "cooldownEnd s \<and> (press_end s ev \<or> ev_type ev = ''keyup'')"
  with assms show "step s (Fire el ev) = s" by (simp add: release_discarded)
next
  assume a: "s = run (page0 ua ots mtp) ins0 \<and> \<not> cooldownEnd s \<and>
      (press_end s ev1 \<or> ev_type ev1 = ''keyup'' \<and> keyCode ev1 = 13) \<and>
      (timer s \<noteq> None \<or> ev_type ev1 \<noteq> ''touchend'' \<and> ev_type ev1 \<noteq> ''touchcancel'') \<and>
      elapsed ins < 100 \<and> wired s el2 opts2 \<and> (press_end s ev \<or> ev_type ev = ''keyup'')"
  then have "s = run (page0 ua ots mtp) ins0" by blast
  then have ok: "page_ok s" by (simp add: page_ok_reachable)
  from a have a1: "\<not> cooldownEnd s"
    and a2: "press_end s ev1 \<or> ev_type ev1 = ''keyup'' \<and> keyCode ev1 = 13"
    and a3: "timer s \<noteq> None \<or> ev_type ev1 \<noteq> ''touchend'' \<and> ev_type ev1 \<noteq> ''touchcancel''"
    and a4: "elapsed ins < 100" and a5: "wired s el2 opts2"
    and a6: "press_end s ev \<or> ev_type ev = ''keyup''"
    by blast+
  let ?s1 = "dispatchEvent el ev1 s"
  note c = first_release_cooling [OF ok assms a1 a2 a3]
  from a4 have "now ?s1 + elapsed ins < now s + 100" by (simp add: c(2))
  with c(1) have c2: "end_cooling (now s + 100) (run ?s1 ins)"
    by (rule end_cooling_run)
  have r: "run s (Fire el ev1 # ins) = run ?s1 ins"
    by (simp add: run_Cons)
  from c2 show "cooldownEnd (run s (Fire el ev1 # ins))"
    by (simp add: r end_cooling_def)
  have e1: "elements ?s1 = elements s" "userAgent ?s1 = userAgent s"
    by (simp_all add: frame_dispatchEvent)
  have "wired ?s1 el2 opts2"
    using wired_cong [OF e1] a5 by simp
  then have w: "wired (run ?s1 ins) el2 opts2" by (rule wired_run)
  have u: "userAgent (run ?s1 ins) = userAgent s"
    by (simp add: userAgent_run e1)
  have "press_end (run ?s1 ins) ev \<or> ev_type ev = ''keyup''"
    using press_end_cong [OF u] a6 by simp
  with w c2 have "dispatchEvent el2 ev (run ?s1 ins) = run ?s1 ins"
    by (intro release_discarded) (simp_all add: end_cooling_def)
  then show "step (run s (Fire el ev1 # ins)) (Fire el2 ev) = run s (Fire el ev1 # ins)"
    by (simp add: r)
qed

theorem stray_end_ignored_witness:
  "step (run desktop [BindCall 3 single_click]) (Fire 3 (touch_event ''touchend'' [])) =
     run desktop [BindCall 3 single_click] \<and>
   step (run desktop [BindCall 3 single_click, Fire 3 (key_event 13), Wait 50])
       (Fire 3 (mouse_event ''click'' 1)) =
     run desktop [BindCall 3 single_click, Fire 3 (key_event 13), Wait 50] \<and>
   cooldownEnd (run (run desktop [BindCall 3 single_click])
     (Fire 3 (mouse_event ''click'' 1) # [Wait 60])) \<and>
   step (run (run desktop [BindCall 3 single_click])
       (Fire 3 (mouse_event ''click'' 1) # [Wait 60])) (Fire 3 (key_event 13)) =
     run (run desktop [BindCall 3 single_click]) (Fire 3 (mouse_event ''click'' 1) # [Wait 60])"
proof -
  let ?s = "run desktop [BindCall 3 single_click]"
  let ?t = "run desktop [BindCall 3 single_click, Fire 3 (key_event 13), Wait 50]"
  have w: "wired ?s 3 single_click" "wired ?t 3 single_click"
    by code_simp+
  have a: "(ev_type (touch_event ''touchend'' []) = ''touchend'' \<or>
      ev_type (touch_event ''touchend'' []) = ''touchcancel'') \<and> timer ?s = None"
    by code_simp
  have b: "cooldownEnd ?t \<and> (press_end ?t (mouse_event ''click'' 1) \<or>
      ev_type (mouse_event ''click'' 1) = ''keyup'')"
    by code_simp
  have c1: "?s = run (page0 ''Mozilla/5.0 (X11; Linux x86_64)'' False 0) [BindCall 3 single_click]"
    by (simp add: desktop_def)
  have c2: "\<not> cooldownEnd ?s"
    "press_end ?s (mouse_event ''click'' 1) \<or>
      ev_type (mouse_event ''click'' 1) = ''keyup'' \<and> keyCode (mouse_event ''click'' 1) = 13"
    "timer ?s \<noteq> None \<or> ev_type (mouse_event ''click'' 1) \<noteq> ''touchend'' \<and>
      ev_type (mouse_event ''click'' 1) \<noteq> ''touchcancel''"
    "elapsed [Wait 60] < 100"
    "press_end ?s (key_event 13) \<or> ev_type (key_event 13) = ''keyup''"
    by code_simp+
  from stray_end_ignored [OF w(1), where ev = "touch_event ''touchend'' []", THEN conjunct1] a
  have 1: "step ?s (Fire 3 (touch_event ''touchend'' [])) = ?s" by blast
  from stray_end_ignored [OF w(2), where ev = "mouse_event ''click'' 1",
      THEN conjunct2, THEN conjunct1] b
  have 2: "step ?t (Fire 3 (mouse_event ''click'' 1)) = ?t" by blast
  from stray_end_ignored [OF w(1), where ev = "key_event 13"
      and ua = "''Mozilla/5.0 (X11; Linux x86_64)''" and ots = False and mtp = 0
      and ?ins0.0 = "[BindCall 3 single_click]" and ?ev1.0 = "mouse_event ''click'' 1"
      and ins = "[Wait 60]" and ?el2.0 = 3 and ?opts2.0 = single_click,
      THEN conjunct2, THEN conjunct2] c1 c2 w(1)
  have 3: "cooldownEnd (run ?s (Fire 3 (mouse_event ''click'' 1) # [Wait 60])) \<and>
    step (run ?s (Fire 3 (mouse_event ''click'' 1) # [Wait 60])) (Fire 3 (key_event 13)) =
      run ?s (Fire 3 (mouse_event ''click'' 1) # [Wait 60])"
    by blast
  from 1 2 3 show ?thesis by blast
qed

section \<open>Gestures on any page\<close>

lemma elapsed_Cons: "elapsed (i # ins) = elapsed [i] + elapsed ins"
  by (cases i) simp_all

lemma wait_passive: "is_wait i \<Longrightarrow> is_passive i"
  by (cases i) simp_all

lemma passive_run_frame:
  "\<forall>i\<in>set ins. is_passive i \<Longrightarrow>
   elements (run s ins) = elements s \<and> userAgent (run s ins) = userAgent s \<and>
   now (run s ins) = now s + elapsed ins"
proof (induction ins arbitrary: s)
  case Nil
  then show ?case by (simp add: run_Nil)
next
  case (Cons i ins)
  then have p: "is_passive i" by simp
  from Cons.IH [of "step s i"] Cons.prems show ?case
    by (simp add: run_Cons passive_frame(2,3) [OF p] now_step elapsed_Cons [of i ins])
qed

lemma held_run_passive: "\<forall>i\<in>set ins. is_passive i \<Longrightarrow> held s \<Longrightarrow> held (run s ins)"
  by (induction ins arbitrary: s) (simp_all add: run_Nil run_Cons held_passive)

lemma timers_passive: "is_passive i \<Longrightarrow> set (timers (step s i)) \<subseteq> set (timers s)"
proof (cases i)
  case (Wait d)
  then show ?thesis by (auto simp: timers_advance)
next
  case (DocFire ty)
  have "set (timers (cancelHold s)) \<subseteq> set (timers s)"
    using timers_clearTimeout [of "timer s" s] by (simp add: cancelHold_def stopAnimation_def)
  then show ?thesis by (simp add: DocFire dispatchDocument_eq)
qed simp_all

lemma not_held_passive:
  assumes "is_passive i" "\<not> held s"
    "\<forall>x\<in>set (timers s). is_hold (cb x) \<longrightarrow> now s + elapsed [i] < due x"
  shows "\<not> held (step s i)"
proof (cases i)
  case (Wait d)
  with assms show ?thesis by (auto simp: held_advance)
next
  case (DocFire ty)
  with assms show ?thesis by (simp add: frame_dispatchDocument)
qed (use assms in simp_all)

lemma not_held_run_passive:
  "\<forall>i\<in>set ins. is_passive i \<Longrightarrow> \<not> held s \<Longrightarrow>
   \<forall>x\<in>set (timers s). is_hold (cb x) \<longrightarrow> now s + elapsed ins < due x \<Longrightarrow>
   \<not> held (run s ins)"
proof (induction ins arbitrary: s)
  case Nil
  then show ?case by (simp add: run_Nil)
next
  case (Cons i ins)
  then have p: "is_passive i" by simp
  have 1: "\<not> held (step s i)"
    using p Cons.prems(2)
  proof (rule not_held_passive)
    show "\<forall>x\<in>set (timers s). is_hold (cb x) \<longrightarrow> now s + elapsed [i] < due x"
      using Cons.prems(3) by (auto simp: elapsed_Cons [of i ins])
  qed
  have 2: "\<forall>x\<in>set (timers (step s i)). is_hold (cb x) \<longrightarrow> now (step s i) + elapsed ins < due x"
    using Cons.prems(3) timers_passive [OF p, of s]
    by (auto simp: now_step elapsed_Cons [of i ins])
  from Cons.IH [OF _ 1 2] Cons.prems(1) show ?case by (simp add: run_Cons)
qed

lemma timer_run_waits: "\<forall>i\<in>set ins. is_wait i \<Longrightarrow> timer (run s ins) = timer s"
proof (induction ins arbitrary: s)
  case Nil
  then show ?case by (simp add: run_Nil)
next
  case (Cons i ins)
  then obtain d where "i = Wait d" by (cases i) simp_all
  with Cons show ?case by (simp add: run_Cons frame_advance)
qed

lemma hold_notes_append: "hold_notes (xs @ ys) = hold_notes xs @ hold_notes ys"
  by (simp add: hold_notes_def)

lemma hold_notes_run_callback:
  "hold_notes (dispatched (run_callback c s)) = hold_notes (dispatched s)"
  by (cases c) (simp_all add: hold_notes_def startAnimation_def fireEvent_def)

lemma hold_notes_run_timers:
  "hold_notes (dispatched (run_timers t s)) = hold_notes (dispatched s)"
  by (rule run_timers_preserves) (simp_all add: hold_notes_run_callback)

lemma hold_notes_advance: "hold_notes (dispatched (advance d s)) = hold_notes (dispatched s)"
  by (simp add: advance_def Let_def hold_notes_run_timers)

lemma hold_notes_passive:
  "is_passive i \<Longrightarrow> hold_notes (dispatched (step s i)) = hold_notes (dispatched s)"
  by (cases i) (simp_all add: hold_notes_advance frame_dispatchDocument)

lemma hold_notes_run_passive:
  "\<forall>i\<in>set ins. is_passive i \<Longrightarrow>
   hold_notes (dispatched (run s ins)) = hold_notes (dispatched s)"
  by (induction ins arbitrary: s) (simp_all add: run_Nil run_Cons hold_notes_passive)

lemma release_tap:
  assumes "\<not> cooldownEnd s" "\<not> held s" "\<not> truthy (hasDoubleClick opts)"
    "timer s \<noteq> None \<or> ev_type ev = ''click''"
  shows "dispatched (clickEnd el opts s ev) =
     dispatched s @ [Notification (now s) el ''action'' [(''action'', ''tap'')]]"
  using assms(4)
  by (elim disjE; simp add: assms(1,2,3) release_defs frame_clearTimeout)

lemma release_hold:
  assumes "\<not> cooldownEnd s" "held s" "timer s \<noteq> None \<or> ev_type ev = ''click''"
  shows "dispatched (clickEnd el opts s ev) =
     dispatched s @ [Notification (now s) el ''action'' [(''action'', ''hold'')]]"
  using assms(3)
  by (elim disjE; simp add: assms(1,2) release_defs frame_clearTimeout)

text \<open>
  A press-start that finds the start cooldown off, on a bound element, and the passive inputs
  that follow it.
\<close>

lemma press_then_passive:
  assumes "wired s el opts" "\<not> cooldownStart s" "press_start s ev1" "coords ev1 = Some (x, y)"
    "\<forall>i\<in>set ins. is_passive i" "press_end s ev2"
  defines "s1 \<equiv> clickStart s ev1"
  shows "run s (Fire el ev1 # ins) = run s1 ins"
    and "run s (Fire el ev1 # ins @ [Fire el ev2]) = clickEnd el opts (run s1 ins) ev2"
    and "run s (Fire el ev1 # ins @ [Fire el ev2, Wait w]) =
      advance w (clickEnd el opts (run s1 ins) ev2)"
    and "now (run s1 ins) = now s + elapsed ins"
    and "hold_notes (dispatched (run s1 ins)) = hold_notes (dispatched s)"
    and "s1 = s\<lparr>held := False, timer := Some (next_id s), cooldownStart := True,
       timers := timers s @ [Timer (next_id s) (now s + holdTime s) (HoldFire x y),
                             Timer (Suc (next_id s)) (now s + 100) CooldownStartReset],
       next_id := Suc (Suc (next_id s))\<rparr>"
proof -
  have d1: "dispatchEvent el ev1 s = s1"
    unfolding s1_def using assms(1,3) by (rule dispatch_press_start)
  show f: "s1 = s\<lparr>held := False, timer := Some (next_id s), cooldownStart := True,
       timers := timers s @ [Timer (next_id s) (now s + holdTime s) (HoldFire x y),
                             Timer (Suc (next_id s)) (now s + 100) CooldownStartReset],
       next_id := Suc (Suc (next_id s))\<rparr>"
    unfolding s1_def using assms(2,4) by (rule clickStart_fresh)
  show r: "run s (Fire el ev1 # ins) = run s1 ins"
    by (simp add: run_Cons d1)
  note fr = passive_run_frame [OF assms(5), of s1]
  have e: "elements (run s1 ins) = elements s" "userAgent (run s1 ins) = userAgent s"
    using fr by (simp_all add: s1_def frame_clickStart)
  have "wired (run s1 ins) el opts" "press_end (run s1 ins) ev2"
    using wired_cong [OF e] press_end_cong [OF e(2)] assms(1,6) by simp_all
  then have d2: "dispatchEvent el ev2 (run s1 ins) = clickEnd el opts (run s1 ins) ev2"
    by (rule dispatch_press_end)
  show "run s (Fire el ev1 # ins @ [Fire el ev2]) = clickEnd el opts (run s1 ins) ev2"
    by (simp add: run_Cons d1 run_append [of s1 ins] run_Nil d2)
  show "run s (Fire el ev1 # ins @ [Fire el ev2, Wait w]) =
      advance w (clickEnd el opts (run s1 ins) ev2)"
    by (simp add: run_Cons d1 run_append [of s1 ins] run_Nil d2)
  show "now (run s1 ins) = now s + elapsed ins"
    using fr by (simp add: f)
  show "hold_notes (dispatched (run s1 ins)) = hold_notes (dispatched s)"
    by (simp add: hold_notes_run_passive [OF assms(5)] f)
qed

text \<open>
  C3, as the code has it. On an element bound without double-click, let a press-start find the
  start cooldown off, and let only time and events on the document follow it, for less than
  500ms in all, during which no hold timer of an earlier press falls due. Let the press-end
  then find the end cooldown off and, when it is a touch release, let nothing but time have
  passed since the press-start (an event on the document may have been a cancel-class one).
  Then the press-end dispatches exactly one \<^verbatim>\<open>tap\<close>, at once, and from the press-start on,
  however long one waits after the press-end, no \<^verbatim>\<open>hold\<close> is dispatched. On an idle
  recognizer the \<^verbatim>\<open>tap\<close> is all that is dispatched.
\<close>

theorem tap_without_double_click:
  assumes "wired s el opts" "\<not> truthy (hasDoubleClick opts)" "holdTime s = 500"
    "\<not> cooldownStart s" "press_start s ev1" "coords ev1 \<noteq> None"
    "\<forall>i\<in>set ins. is_passive i" "elapsed ins < 500"
    "\<forall>x\<in>set (timers s). is_hold (cb x) \<longrightarrow> now s + elapsed ins < due x"
    "press_end s ev2" "ev_type ev2 = ''click'' \<or> (\<forall>i\<in>set ins. is_wait i)"
    "\<not> cooldownEnd (run s (Fire el ev1 # ins))"
  shows "dispatched (run s (Fire el ev1 # ins @ [Fire el ev2])) =
       dispatched (run s (Fire el ev1 # ins)) @
         [Notification (now s + elapsed ins) el ''action'' [(''action'', ''tap'')]] \<and>
     hold_notes (dispatched (run s (Fire el ev1 # ins @ [Fire el ev2, Wait w]))) =
       hold_notes (dispatched s) \<and>
     (idle s \<and> d < 500 \<longrightarrow>
        dispatched (run s [Fire el ev1, Wait d]) = dispatched s \<and>
        dispatched (run s [Fire el ev1, Wait d, Fire el ev2]) =
          dispatched s @ [Notification (now s + d) el ''action'' [(''action'', ''tap'')]] \<and>
        dispatched (run s [Fire el ev1, Wait d, Fire el ev2, Wait w]) =
          dispatched s @ [Notification (now s + d) el ''action'' [(''action'', ''tap'')]])"
proof -
  from assms(6) obtain x y where c: "coords ev1 = Some (x, y)" by auto
  define s1 where "s1 = clickStart s ev1"
  note P = press_then_passive [OF assms(1,4,5) c assms(7,10), folded s1_def]
  let ?s2 = "run s1 ins"
  have h1: "\<not> held s1"
    "\<forall>x\<in>set (timers s1). is_hold (cb x) \<longrightarrow> now s1 + elapsed ins < due x"
    using assms(3,8,9) by (simp_all add: P(6))
  from not_held_run_passive [OF assms(7) h1] have nh: "\<not> held ?s2" .
  have ce: "\<not> cooldownEnd ?s2" using assms(12) by (simp add: P(1))
  have t: "timer ?s2 \<noteq> None \<or> ev_type ev2 = ''click''"
    using assms(11)
  proof
    assume "\<forall>i\<in>set ins. is_wait i"
    then have "timer ?s2 = timer s1" by (rule timer_run_waits)
    then show ?thesis by (simp add: P(6))
  qed simp
  from release_tap [OF ce nh assms(2) t, of el]
  have 1: "dispatched (run s (Fire el ev1 # ins @ [Fire el ev2])) =
       dispatched (run s (Fire el ev1 # ins)) @
         [Notification (now s + elapsed ins) el ''action'' [(''action'', ''tap'')]]"
    by (simp add: P(1,2,4))
  have 2: "hold_notes (dispatched (run s (Fire el ev1 # ins @ [Fire el ev2, Wait w]))) =
       hold_notes (dispatched s)"
    using nh by (simp add: P(3) hold_notes_advance hold_notes_clickEnd P(5))
  have 3: "dispatched (run s [Fire el ev1, Wait d]) = dispatched s \<and>
        dispatched (run s [Fire el ev1, Wait d, Fire el ev2]) =
          dispatched s @ [Notification (now s + d) el ''action'' [(''action'', ''tap'')]] \<and>
        dispatched (run s [Fire el ev1, Wait d, Fire el ev2, Wait w]) =
          dispatched s @ [Notification (now s + d) el ''action'' [(''action'', ''tap'')]]"
    if "idle s" "d < 500"
    using tap_idle [OF assms(1,2,3) that(1) assms(5,6,10) that(2)] .
  from 1 2 3 show ?thesis by blast
qed

theorem tap_without_double_click_witness:
  "dispatched (run (run desktop
        [BindCall 3 single_click, Fire 3 (mouse_event ''mousedown'' 1), Wait 80,
         DocFire ''mouseup'', Fire 3 (mouse_event ''click'' 1), Wait 70])
      (Fire 3 (mouse_event ''mousedown'' 1) # [Wait 60, DocFire ''mouseup''] @
       [Fire 3 (mouse_event ''click'' 1)])) =
     [Notification 80 3 ''action'' [(''action'', ''tap'')],
      Notification 210 3 ''action'' [(''action'', ''tap'')]] \<and>
   hold_notes (dispatched (run (run desktop
        [BindCall 3 single_click, Fire 3 (mouse_event ''mousedown'' 1), Wait 80,
         DocFire ''mouseup'', Fire 3 (mouse_event ''click'' 1), Wait 70])
      (Fire 3 (mouse_event ''mousedown'' 1) # [Wait 60, DocFire ''mouseup''] @
       [Fire 3 (mouse_event ''click'' 1), Wait 1000]))) = [] \<and>
   dispatched (run (actionHandlerBind 3 single_click desktop)
      [Fire 3 (mouse_event ''mousedown'' 1), Wait 120, Fire 3 (mouse_event ''click'' 1),
       Wait 1000]) =
     [Notification 120 3 ''action'' [(''action'', ''tap'')]]"
proof -
  let ?s = "run desktop
        [BindCall 3 single_click, Fire 3 (mouse_event ''mousedown'' 1), Wait 80,
         DocFire ''mouseup'', Fire 3 (mouse_event ''click'' 1), Wait 70]"
  let ?ins = "[Wait 60, DocFire ''mouseup'']"
  let ?b = "actionHandlerBind 3 single_click desktop"
  have h: "wired ?s 3 single_click" "\<not> truthy (hasDoubleClick single_click)"
    "holdTime ?s = 500" "\<not> cooldownStart ?s"
    "press_start ?s (mouse_event ''mousedown'' 1)"
    "coords (mouse_event ''mousedown'' 1) \<noteq> None"
    "\<forall>i\<in>set ?ins. is_passive i" "elapsed ?ins < 500"
    "\<forall>x\<in>set (timers ?s). is_hold (cb x) \<longrightarrow> now ?s + elapsed ?ins < due x"
    "press_end ?s (mouse_event ''click'' 1)"
    "ev_type (mouse_event ''click'' 1) = ''click'' \<or> (\<forall>i\<in>set ?ins. is_wait i)"
    "\<not> cooldownEnd (run ?s (Fire 3 (mouse_event ''mousedown'' 1) # ?ins))"
    by code_simp+
  have v: "dispatched (run ?s (Fire 3 (mouse_event ''mousedown'' 1) # ?ins)) =
      [Notification 80 3 ''action'' [(''action'', ''tap'')]]"
    "now ?s = 150" "elapsed ?ins = 60" "hold_notes (dispatched ?s) = []"
    by code_simp+
  have g: "wired ?b 3 single_click" "\<not> truthy (hasDoubleClick single_click)"
    "holdTime ?b = 500" "\<not> cooldownStart ?b"
    "press_start ?b (mouse_event ''mousedown'' 1)"
    "coords (mouse_event ''mousedown'' 1) \<noteq> None"
    "\<forall>i\<in>set [Wait 120]. is_passive i" "elapsed [Wait 120] < 500"
    "\<forall>x\<in>set (timers ?b). is_hold (cb x) \<longrightarrow> now ?b + elapsed [Wait 120] < due x"
    "press_end ?b (mouse_event ''click'' 1)"
    "ev_type (mouse_event ''click'' 1) = ''click'' \<or> (\<forall>i\<in>set [Wait 120]. is_wait i)"
    "\<not> cooldownEnd (run ?b (Fire 3 (mouse_event ''mousedown'' 1) # [Wait 120]))"
    by code_simp+
  have u: "idle ?b" "(120::nat) < 500" "dispatched ?b = []" "now ?b = 0"
    by code_simp+
  note a = tap_without_double_click [OF h, where w = 1000 and d = 0]
  note b = tap_without_double_click [OF g, where w = 1000 and d = 120]
  from a have 1: "dispatched (run ?s (Fire 3 (mouse_event ''mousedown'' 1) # ?ins @
       [Fire 3 (mouse_event ''click'' 1)])) =
     [Notification 80 3 ''action'' [(''action'', ''tap'')],
      Notification 210 3 ''action'' [(''action'', ''tap'')]]"
    by (simp add: v)
  from a have 2: "hold_notes (dispatched (run ?s (Fire 3 (mouse_event ''mousedown'' 1) # ?ins @
       [Fire 3 (mouse_event ''click'' 1), Wait 1000]))) = []"
    by (simp add: v)
  from b u have 3: "dispatched (run ?b
      [Fire 3 (mouse_event ''mousedown'' 1), Wait 120, Fire 3 (mouse_event ''click'' 1),
       Wait 1000]) =
     [Notification 120 3 ''action'' [(''action'', ''tap'')]]"
    by simp
  from 1 2 3 show ?thesis by simp
qed

text \<open>
  C3 fails as stated. A touch press whose finger moves before the release 150ms later
  dispatches no \<^verbatim>\<open>tap\<close>: the document listener has cleared \<^verbatim>\<open>timer\<close>, and the
  \<^verbatim>\<open>touchend\<close> is ignored. And when an earlier press has left its hold timer in the queue
  (a second press-start 150ms after the first, with no press-end between), a later press of
  150ms, begun with both cooldowns off, dispatches \<^verbatim>\<open>hold\<close>, not \<^verbatim>\<open>tap\<close>.
\<close>

theorem tap_without_double_click_counterexample:
  "dispatched (run (actionHandlerBind 3 single_click desktop)
      [Fire 3 (touch_event ''touchstart'' [(11, 12)]), Wait 100, DocFire ''touchmove'',
       Wait 50, Fire 3 (touch_event ''touchend'' []), Wait 1000]) = [] \<and>
   \<not> cooldownStart (run (actionHandlerBind 3 single_click desktop)
      [Fire 3 (touch_event ''touchstart'' [(11, 12)]), Wait 150,
       Fire 3 (touch_event ''touchstart'' [(11, 12)]), Wait 50,
       Fire 3 (touch_event ''touchend'' []), Wait 200]) \<and>
   \<not> cooldownEnd (run (actionHandlerBind 3 single_click desktop)
      [Fire 3 (touch_event ''touchstart'' [(11, 12)]), Wait 150,
       Fire 3 (touch_event ''touchstart'' [(11, 12)]), Wait 50,
       Fire 3 (touch_event ''touchend'' []), Wait 200]) \<and>
   dispatched (run (actionHandlerBind 3 single_click desktop)
      [Fire 3 (touch_event ''touchstart'' [(11, 12)]), Wait 150,
       Fire 3 (touch_event ''touchstart'' [(11, 12)]), Wait 50,
       Fire 3 (touch_event ''touchend'' []), Wait 200,
       Fire 3 (touch_event ''touchstart'' [(11, 12)]), Wait 150,
       Fire 3 (touch_event ''touchend'' [])]) =
     [Notification 200 3 ''action'' [(''action'', ''tap'')],
      Notification 550 3 ''action'' [(''action'', ''hold'')]]"
  by code_simp

text \<open>
  C2, as the code has it. Let a press-start on a bound element find the start cooldown off,
  and let nothing but time follow it for at least 500ms. Then the recognizer is in the held
  state, and stays there while only time passes and events arrive on the document; as long as
  no press-end comes, no \<^verbatim>\<open>hold\<close> is dispatched. Let the press-end then find the end
  cooldown off and, when it is a touch release, let nothing but time have passed since the
  press-start. Then the press-end dispatches exactly one \<^verbatim>\<open>hold\<close> and nothing else, and it
  remains the one \<^verbatim>\<open>hold\<close> of the gesture however long one waits. On an idle recognizer the
  \<^verbatim>\<open>hold\<close> is all that is dispatched.
\<close>

theorem hold_after_500ms:
  assumes "wired s el opts" "holdTime s = 500"
    "\<not> cooldownStart s" "press_start s ev1" "coords ev1 \<noteq> None" "500 \<le> d"
    "\<forall>i\<in>set ins. is_passive i"
    "press_end s ev2" "ev_type ev2 = ''click'' \<or> (\<forall>i\<in>set ins. is_wait i)"
    "\<not> cooldownEnd (run s (Fire el ev1 # Wait d # ins))"
  shows "held (run s (Fire el ev1 # Wait d # ins)) \<and>
     hold_notes (dispatched (run s (Fire el ev1 # Wait d # ins))) = hold_notes (dispatched s) \<and>
     dispatched (run s (Fire el ev1 # Wait d # ins @ [Fire el ev2])) =
       dispatched (run s (Fire el ev1 # Wait d # ins)) @
         [Notification (now s + d + elapsed ins) el ''action'' [(''action'', ''hold'')]] \<and>
     hold_notes (dispatched (run s (Fire el ev1 # Wait d # ins @ [Fire el ev2, Wait w]))) =
       hold_notes (dispatched s) @
         [Notification (now s + d + elapsed ins) el ''action'' [(''action'', ''hold'')]] \<and>
     (idle s \<longrightarrow>
        dispatched (run s [Fire el ev1, Wait d]) = dispatched s \<and>
        dispatched (run s [Fire el ev1, Wait d, Fire el ev2]) =
          dispatched s @ [Notification (now s + d) el ''action'' [(''action'', ''hold'')]] \<and>
        dispatched (run s [Fire el ev1, Wait d, Fire el ev2, Wait w]) =
          dispatched s @ [Notification (now s + d) el ''action'' [(''action'', ''hold'')]])"
proof -
  from assms(5) obtain x y where c: "coords ev1 = Some (x, y)" by auto
  define s1 where "s1 = clickStart s ev1"
  have p: "\<forall>i\<in>set (Wait d # ins). is_passive i" using assms(7) by simp
  note P = press_then_passive [OF assms(1,3,4) c p assms(8), folded s1_def]
  let ?s2 = "run s1 (Wait d # ins)"
  have "held (advance d s1)"
    using assms(2,6) by (simp add: held_advance P(6))
  with held_run_passive [OF assms(7), of "advance d s1"] have h: "held ?s2"
    by (simp add: run_Cons)
  have ce: "\<not> cooldownEnd ?s2" using assms(10) by (simp add: P(1))
  have t: "timer ?s2 \<noteq> None \<or> ev_type ev2 = ''click''"
    using assms(9)
  proof
    assume "\<forall>i\<in>set ins. is_wait i"
    then have "\<forall>i\<in>set (Wait d # ins). is_wait i" by simp
    then have "timer ?s2 = timer s1" by (rule timer_run_waits)
    then show ?thesis by (simp add: P(6))
  qed simp
  note R = release_hold [OF ce h t, of el opts]
  have n: "now ?s2 = now s + d + elapsed ins"
    using P(4) by simp
  have 1: "held (run s (Fire el ev1 # Wait d # ins))"
    using h by (simp add: P(1))
  have 2: "hold_notes (dispatched (run s (Fire el ev1 # Wait d # ins))) =
      hold_notes (dispatched s)"
    by (simp add: P(1,5))
  have 3: "dispatched (run s (Fire el ev1 # Wait d # ins @ [Fire el ev2])) =
       dispatched (run s (Fire el ev1 # Wait d # ins)) @
         [Notification (now s + d + elapsed ins) el ''action'' [(''action'', ''hold'')]]"
    using P(2) R by (simp add: P(1) n)
  have 4: "hold_notes (dispatched (run s (Fire el ev1 # Wait d # ins @ [Fire el ev2, Wait w]))) =
       hold_notes (dispatched s) @
         [Notification (now s + d + elapsed ins) el ''action'' [(''action'', ''hold'')]]"
    using P(3) [of w] R
    by (simp add: hold_notes_advance hold_notes_append P(5) n) (simp add: hold_notes_def)
  have 5: "dispatched (run s [Fire el ev1, Wait d]) = dispatched s \<and>
        dispatched (run s [Fire el ev1, Wait d, Fire el ev2]) =
          dispatched s @ [Notification (now s + d) el ''action'' [(''action'', ''hold'')]] \<and>
        dispatched (run s [Fire el ev1, Wait d, Fire el ev2, Wait w]) =
          dispatched s @ [Notification (now s + d) el ''action'' [(''action'', ''hold'')]]"
    if "idle s"
    using hold_idle [OF assms(1,2) that assms(4,5,8,6), of w] by simp
  from 1 2 3 4 5 show ?thesis by blast
qed

theorem hold_after_500ms_witness:
  "held (run (run desktop
        [BindCall 3 single_click, Fire 3 (mouse_event ''mousedown'' 1), Wait 80,
         DocFire ''mouseup'', Fire 3 (mouse_event ''click'' 1), Wait 70])
      (Fire 3 (mouse_event ''mousedown'' 1) # Wait 600 # [DocFire ''mouseup'', Wait 20])) \<and>
   dispatched (run (run desktop
        [BindCall 3 single_click, Fire 3 (mouse_event ''mousedown'' 1), Wait 80,
         DocFire ''mouseup'', Fire 3 (mouse_event ''click'' 1), Wait 70])
      (Fire 3 (mouse_event ''mousedown'' 1) # Wait 600 # [DocFire ''mouseup'', Wait 20] @
       [Fire 3 (mouse_event ''click'' 1)])) =
     [Notification 80 3 ''action'' [(''action'', ''tap'')],
      Notification 770 3 ''action'' [(''action'', ''hold'')]] \<and>
   hold_notes (dispatched (run (run desktop
        [BindCall 3 single_click, Fire 3 (mouse_event ''mousedown'' 1), Wait 80,
         DocFire ''mouseup'', Fire 3 (mouse_event ''click'' 1), Wait 70])
      (Fire 3 (mouse_event ''mousedown'' 1) # Wait 600 # [DocFire ''mouseup'', Wait 20] @
       [Fire 3 (mouse_event ''click'' 1), Wait 1000]))) =
     [Notification 770 3 ''action'' [(''action'', ''hold'')]] \<and>
   dispatched (run (actionHandlerBind 3 double_click desktop)
      [Fire 3 (touch_event ''touchstart'' [(11, 12)]), Wait 500,
       Fire 3 (touch_event ''touchend'' []), Wait 2000]) =
     [Notification 500 3 ''action'' [(''action'', ''hold'')]]"
proof -
  let ?s = "run desktop
        [BindCall 3 single_click, Fire 3 (mouse_event ''mousedown'' 1), Wait 80,
         DocFire ''mouseup'', Fire 3 (mouse_event ''click'' 1), Wait 70]"
  let ?ins = "[DocFire ''mouseup'', Wait 20]"
  let ?b = "actionHandlerBind 3 double_click desktop"
  have h: "wired ?s 3 single_click" "holdTime ?s = 500" "\<not> cooldownStart ?s"
    "press_start ?s (mouse_event ''mousedown'' 1)"
    "coords (mouse_event ''mousedown'' 1) \<noteq> None" "(500::nat) \<le> 600"
    "\<forall>i\<in>set ?ins. is_passive i"
    "press_end ?s (mouse_event ''click'' 1)"
    "ev_type (mouse_event ''click'' 1) = ''click'' \<or> (\<forall>i\<in>set ?ins. is_wait i)"
    "\<not> cooldownEnd (run ?s (Fire 3 (mouse_event ''mousedown'' 1) # Wait 600 # ?ins))"
    by code_simp+
  have v: "dispatched (run ?s (Fire 3 (mouse_event ''mousedown'' 1) # Wait 600 # ?ins)) =
      [Notification 80 3 ''action'' [(''action'', ''tap'')]]"
    "now ?s = 150" "elapsed ?ins = 20" "hold_notes (dispatched ?s) = []"
    by code_simp+
  have g: "wired ?b 3 double_click" "holdTime ?b = 500" "\<not> cooldownStart ?b"
    "press_start ?b (touch_event ''touchstart'' [(11, 12)])"
    "coords (touch_event ''touchstart'' [(11, 12)]) \<noteq> None" "(500::nat) \<le> 500"
    "\<forall>i\<in>set []. is_passive i"
    "press_end ?b (touch_event ''touchend'' [])"
    "ev_type (touch_event ''touchend'' []) = ''click'' \<or> (\<forall>i\<in>set []. is_wait i)"
    "\<not> cooldownEnd (run ?b (Fire 3 (touch_event ''touchstart'' [(11, 12)]) # Wait 500 # []))"
    by code_simp+
  have u: "idle ?b" "dispatched ?b = []" "now ?b = 0"
    by code_simp+
  note a = hold_after_500ms [OF h, where w = 1000]
  note b = hold_after_500ms [OF g, where w = 2000]
  from a have 1: "held (run ?s (Fire 3 (mouse_event ''mousedown'' 1) # Wait 600 # ?ins))"
    by simp
  from a have 2: "dispatched (run ?s (Fire 3 (mouse_event ''mousedown'' 1) # Wait 600 # ?ins @
       [Fire 3 (mouse_event ''click'' 1)])) =
     [Notification 80 3 ''action'' [(''action'', ''tap'')],
      Notification 770 3 ''action'' [(''action'', ''hold'')]]"
    by (simp add: v)
  from a have 3: "hold_notes (dispatched (run ?s (Fire 3 (mouse_event ''mousedown'' 1) #
       Wait 600 # ?ins @ [Fire 3 (mouse_event ''click'' 1), Wait 1000]))) =
     [Notification 770 3 ''action'' [(''action'', ''hold'')]]"
    by (simp add: v)
  from b u have 4: "dispatched (run ?b
      [Fire 3 (touch_event ''touchstart'' [(11, 12)]), Wait 500,
       Fire 3 (touch_event ''touchend'' []), Wait 2000]) =
     [Notification 500 3 ''action'' [(''action'', ''hold'')]]"
    by simp
  from 1 2 3 4 show ?thesis by simp
qed

text \<open>
  C2 fails as stated. A touch press of 600ms whose finger then moves before the release
  dispatches no \<^verbatim>\<open>hold\<close>: the \<^verbatim>\<open>touchend\<close> finds \<^verbatim>\<open>timer\<close> undefined and is ignored. And
  a mouse press of 700ms released outside the element, so that no press-end reaches it,
  dispatches nothing however long one waits: the \<^verbatim>\<open>hold\<close> comes only from a press-end.
\<close>

theorem hold_after_500ms_counterexample:
  "dispatched (run (actionHandlerBind 3 single_click desktop)
      [Fire 3 (touch_event ''touchstart'' [(11, 12)]), Wait 600, DocFire ''touchmove'',
       Fire 3 (touch_event ''touchend'' []), Wait 1000]) = [] \<and>
   dispatched (run (actionHandlerBind 3 single_click desktop)
      [Fire 3 (mouse_event ''mousedown'' 1), Wait 700, DocFire ''mouseup'',
       Wait 10000]) = []"
  by code_simp

section \<open>Cancellation on any page\<close>

lemma timers_cancelHold:
  "timers (cancelHold s) = filter (\<lambda>x. timer s \<noteq> Some (tid x)) (timers s)"
  by (simp add: cancelHold_def stopAnimation_def timers_clearTimeout_filter)

lemma fields_cancelHold:
  "timer (cancelHold s) = None" "display (style (cancelHold s)) = Some ''none''"
  by (simp_all add: cancelHold_def stopAnimation_def)

lemma sole_hold_cancelHold:
  "\<forall>x\<in>set (timers s). is_hold (cb x) \<longrightarrow> timer s = Some (tid x) \<Longrightarrow>
   \<forall>x\<in>set (timers (cancelHold s)). \<not> is_hold (cb x)"
  by (auto simp: timers_cancelHold)

lemma sole_hold_passive:
  assumes "is_passive i" "\<forall>x\<in>set (timers s). is_hold (cb x) \<longrightarrow> timer s = Some (tid x)"
  shows "\<forall>x\<in>set (timers (step s i)). is_hold (cb x) \<longrightarrow> timer (step s i) = Some (tid x)"
proof (cases i)
  case (Wait d)
  with assms(2) show ?thesis by (simp add: timers_advance frame_advance)
next
  case (DocFire ty)
  show ?thesis
  proof (cases "ty \<in> fst ` set (doc_listeners s)")
    case True
    with DocFire sole_hold_cancelHold [OF assms(2)] show ?thesis
      by (simp add: dispatchDocument_eq)
  next
    case False
    with DocFire assms(2) show ?thesis by (simp add: dispatchDocument_eq)
  qed
qed (use assms in simp_all)

lemma sole_hold_run_passive:
  "\<forall>i\<in>set ins. is_passive i \<Longrightarrow>
   \<forall>x\<in>set (timers s). is_hold (cb x) \<longrightarrow> timer s = Some (tid x) \<Longrightarrow>
   \<forall>x\<in>set (timers (run s ins)). is_hold (cb x) \<longrightarrow> timer (run s ins) = Some (tid x)"
proof (induction ins arbitrary: s)
  case Nil
  then show ?case by (simp add: run_Nil)
next
  case (Cons i ins)
  from Cons.prems(1) have i: "is_passive i" and r: "\<forall>i\<in>set ins. is_passive i" by simp_all
  from Cons.IH [OF r sole_hold_passive [OF i Cons.prems(2)]] show ?case
    by (simp add: run_Cons)
qed

lemma doc_listeners_run_passive:
  "\<forall>i\<in>set ins. is_passive i \<Longrightarrow> doc_listeners (run s ins) = doc_listeners s"
proof (induction ins arbitrary: s)
  case Nil
  then show ?case by (simp add: run_Nil)
next
  case (Cons i ins)
  from Cons.prems have i: "is_passive i" and r: "\<forall>i\<in>set ins. is_passive i" by simp_all
  from i have "doc_listeners (step s i) = doc_listeners s"
    by (cases i) (simp_all add: frame_advance frame_dispatchDocument)
  with Cons.IH [OF r, of "step s i"] show ?case by (simp add: run_Cons)
qed

lemma mem_timers_run_waits:
  "\<forall>i\<in>set ins. is_wait i \<Longrightarrow> t \<in> set (timers s) \<Longrightarrow> now s + elapsed ins < due t \<Longrightarrow>
   t \<in> set (timers (run s ins))"
proof (induction ins arbitrary: s)
  case Nil
  then show ?case by (simp add: run_Nil)
next
  case (Cons i ins)
  from Cons.prems(1) obtain d where i: "i = Wait d" by (cases i) simp_all
  from Cons.prems(1) have r: "\<forall>i\<in>set ins. is_wait i" by simp
  from Cons.prems(3) have e: "now s + d + elapsed ins < due t"
    by (simp add: i)
  then have "t \<in> set (timers (advance d s))"
    using Cons.prems(2) by (simp add: timers_advance)
  from Cons.IH [OF r this] e show ?case
    by (simp add: run_Cons i now_advance)
qed

lemma release_no_hold:
  assumes "wired s el opts" "\<not> held s" "press_end s ev \<or> ev_type ev = ''keyup''"
  shows "hold_notes (dispatched (dispatchEvent el ev s)) = hold_notes (dispatched s)"
  using assms(3)
proof
  assume "press_end s ev"
  with assms(1) have "dispatchEvent el ev s = clickEnd el opts s ev"
    by (rule dispatch_press_end)
  with assms(2) show ?thesis by (simp add: hold_notes_clickEnd)
next
  assume "ev_type ev = ''keyup''"
  with assms(1) have "dispatchEvent el ev s = handleEnter el opts s ev"
    by (rule dispatch_keyup)
  with assms(2) show ?thesis by (simp add: hold_notes_handleEnter)
qed

lemma cancel_general:
  assumes "wired s el opts" "cancel_wired s" "holdTime s = 500" "\<not> cooldownStart s"
    "press_start s ev1" "coords ev1 = Some (x, y)"
    "\<forall>t\<in>set (timers s). \<not> is_hold (cb t)"
    "\<forall>i\<in>set ins. is_passive i" "elapsed ins < 500" "ty \<in> set cancel_actions"
    "\<forall>i\<in>set ins'. is_passive i" "press_end s ev2 \<or> ev_type ev2 = ''keyup''"
  shows "timer (run s (Fire el ev1 # ins @ [DocFire ty])) = None"
    and "display (style (run s (Fire el ev1 # ins @ [DocFire ty]))) = Some ''none''"
    and "\<forall>t\<in>set (timers (run s (Fire el ev1 # ins @ [DocFire ty]))). \<not> is_hold (cb t)"
    and "\<not> held (run s (Fire el ev1 # ins @ DocFire ty # ins'))"
    and "hold_notes (dispatched (run s (Fire el ev1 # ins @ DocFire ty # ins'))) =
       hold_notes (dispatched s)"
    and "hold_notes (dispatched (run s (Fire el ev1 # ins @ DocFire ty # ins' @ [Fire el ev2]))) =
       hold_notes (dispatched s)"
    and "(\<forall>i\<in>set ins. is_wait i) \<Longrightarrow>
       timer (run s (Fire el ev1 # ins)) = Some (next_id s) \<and>
       Timer (next_id s) (now s + 500) (HoldFire x y) \<in> set (timers (run s (Fire el ev1 # ins)))"
proof -
  define s1 where "s1 = clickStart s ev1"
  define s2 where "s2 = run s1 ins"
  define s3 where "s3 = cancelHold s2"
  define s4 where "s4 = run s3 ins'"
  have d1: "dispatchEvent el ev1 s = s1"
    unfolding s1_def using assms(1,5) by (rule dispatch_press_start)
  have f: "s1 = s\<lparr>held := False, timer := Some (next_id s), cooldownStart := True,
       timers := timers s @ [Timer (next_id s) (now s + holdTime s) (HoldFire x y),
                             Timer (Suc (next_id s)) (now s + 100) CooldownStartReset],
       next_id := Suc (Suc (next_id s))\<rparr>"
    unfolding s1_def using assms(4,6) by (rule clickStart_fresh)
  have r2: "run s (Fire el ev1 # ins) = s2"
    by (simp add: run_Cons d1 s2_def)
  have i1: "\<forall>t\<in>set (timers s1). is_hold (cb t) \<longrightarrow> timer s1 = Some (tid t)"
    using assms(7) by (auto simp: f)
  have g1: "\<forall>t\<in>set (timers s1). is_hold (cb t) \<longrightarrow> now s1 + elapsed ins < due t"
    using assms(3,7,9) by (auto simp: f)
  have h1: "\<not> held s1" by (simp add: f)
  have i2: "\<forall>t\<in>set (timers s2). is_hold (cb t) \<longrightarrow> timer s2 = Some (tid t)"
    unfolding s2_def using assms(8) i1 by (rule sole_hold_run_passive)
  have h2: "\<not> held s2"
    unfolding s2_def using assms(8) h1 g1 by (rule not_held_run_passive)
  have "doc_listeners s2 = doc_listeners s"
    by (simp add: s2_def doc_listeners_run_passive [OF assms(8)] f)
  from cancel_wired_cong [OF this] assms(2) have "cancel_wired s2" by simp
  then have d3: "dispatchDocument ty s2 = s3"
    unfolding s3_def using assms(10) by (rule dispatch_cancel)
  have r3: "run s (Fire el ev1 # ins @ [DocFire ty]) = s3"
    by (simp add: run_Cons d1 run_append [of s1 ins] run_Nil d3 s2_def [symmetric])
  have r4: "run s (Fire el ev1 # ins @ DocFire ty # ins') = s4"
    by (simp add: run_Cons d1 run_append [of s1 ins] d3 s2_def [symmetric] s4_def)
  have r5: "run s (Fire el ev1 # ins @ DocFire ty # ins' @ [Fire el ev2]) =
      dispatchEvent el ev2 s4"
    by (simp add: run_Cons d1 run_append [of s1 ins] run_append [of s3 ins'] run_Nil
        d3 s2_def [symmetric] s4_def [symmetric])
  have i3: "\<forall>t\<in>set (timers s3). \<not> is_hold (cb t)"
    unfolding s3_def using i2 by (rule sole_hold_cancelHold)
  have h3: "\<not> held s3" using h2 by (simp add: s3_def frame_cancelHold)
  have h4: "\<not> held s4"
    unfolding s4_def using assms(11) h3
  proof (rule not_held_run_passive)
    from i3 show "\<forall>t\<in>set (timers s3). is_hold (cb t) \<longrightarrow> now s3 + elapsed ins' < due t"
      by simp
  qed
  have n2: "hold_notes (dispatched s2) = hold_notes (dispatched s)"
    by (simp add: s2_def hold_notes_run_passive [OF assms(8)] f)
  have n4: "hold_notes (dispatched s4) = hold_notes (dispatched s)"
    by (simp add: s4_def hold_notes_run_passive [OF assms(11)] s3_def frame_cancelHold n2)
  note fr2 = passive_run_frame [OF assms(8), of s1]
  note fr4 = passive_run_frame [OF assms(11), of s3]
  have e: "elements s4 = elements s" "userAgent s4 = userAgent s"
    using fr2 fr4 by (simp_all add: s4_def s3_def frame_cancelHold s2_def f)
  have w4: "wired s4 el opts" using wired_cong [OF e] assms(1) by simp
  have p4: "press_end s4 ev2 \<or> ev_type ev2 = ''keyup''"
    using press_end_cong [OF e(2)] assms(12) by simp
  show "timer (run s (Fire el ev1 # ins @ [DocFire ty])) = None"
    by (simp add: r3 s3_def fields_cancelHold)
  show "display (style (run s (Fire el ev1 # ins @ [DocFire ty]))) = Some ''none''"
    by (simp add: r3 s3_def fields_cancelHold)
  show "\<forall>t\<in>set (timers (run s (Fire el ev1 # ins @ [DocFire ty]))). \<not> is_hold (cb t)"
    using i3 by (simp add: r3)
  show "\<not> held (run s (Fire el ev1 # ins @ DocFire ty # ins'))"
    using h4 by (simp add: r4)
  show "hold_notes (dispatched (run s (Fire el ev1 # ins @ DocFire ty # ins'))) =
       hold_notes (dispatched s)"
    by (simp add: r4 n4)
  show "hold_notes (dispatched (run s (Fire el ev1 # ins @ DocFire ty # ins' @ [Fire el ev2]))) =
       hold_notes (dispatched s)"
    by (simp add: r5 release_no_hold [OF w4 h4 p4] n4)
  show "timer (run s (Fire el ev1 # ins)) = Some (next_id s) \<and>
       Timer (next_id s) (now s + 500) (HoldFire x y) \<in> set (timers (run s (Fire el ev1 # ins)))"
    if w: "\<forall>i\<in>set ins. is_wait i"
  proof
    show "timer (run s (Fire el ev1 # ins)) = Some (next_id s)"
      by (simp add: r2 s2_def timer_run_waits [OF w] f)
    have "Timer (next_id s) (now s + 500) (HoldFire x y) \<in> set (timers s1)"
      using assms(3) by (simp add: f)
    moreover have "now s1 + elapsed ins < due (Timer (next_id s) (now s + 500) (HoldFire x y))"
      using assms(9) by (simp add: f)
    ultimately show "Timer (next_id s) (now s + 500) (HoldFire x y) \<in>
        set (timers (run s (Fire el ev1 # ins)))"
      unfolding r2 s2_def using w by (intro mem_timers_run_waits)
  qed
qed

text \<open>
  C5, as the code has it. Take a bound element on any page whose document listeners are those
  of \<^verbatim>\<open>connectedCallback\<close>, with the start-cooldown off and no hold timer of an earlier press
  left in the queue. A press-start arms the hold timer: while only time passes, less than
  500ms, \<^verbatim>\<open>timer\<close> refers to it and it is queued. When, after less than 500ms of time passing
  and document events, one of the seven cancel-class events fires on the document, \<^verbatim>\<open>timer\<close>
  is undefined, the indicator is hidden and no hold timer is queued. From then on, whatever
  time passes and whatever fires on the document, the recognizer does not reach the held
  state and no \<^verbatim>\<open>hold\<close> is dispatched, nor does the release or the Enter key that follows
  dispatch one. On an idle recognizer nothing at all is dispatched after the cancellation,
  however long one waits.
\<close>

theorem cancel_suppresses_hold:
  assumes "wired s el opts" "cancel_wired s" "holdTime s = 500" "\<not> cooldownStart s"
    "press_start s ev1" "coords ev1 = Some (x, y)"
    "\<forall>t\<in>set (timers s). \<not> is_hold (cb t)"
    "\<forall>i\<in>set ins. is_passive i" "elapsed ins < 500" "ty \<in> set cancel_actions"
    "\<forall>i\<in>set ins'. is_passive i" "press_end s ev2 \<or> ev_type ev2 = ''keyup''"
  shows "((\<forall>i\<in>set ins. is_wait i) \<longrightarrow>
        timer (run s (Fire el ev1 # ins)) = Some (next_id s) \<and>
        Timer (next_id s) (now s + 500) (HoldFire x y) \<in>
          set (timers (run s (Fire el ev1 # ins)))) \<and>
     timer (run s (Fire el ev1 # ins @ [DocFire ty])) = None \<and>
     display (style (run s (Fire el ev1 # ins @ [DocFire ty]))) = Some ''none'' \<and>
     (\<forall>t\<in>set (timers (run s (Fire el ev1 # ins @ [DocFire ty]))). \<not> is_hold (cb t)) \<and>
     \<not> held (run s (Fire el ev1 # ins @ DocFire ty # ins')) \<and>
     hold_notes (dispatched (run s (Fire el ev1 # ins @ DocFire ty # ins'))) =
       hold_notes (dispatched s) \<and>
     hold_notes (dispatched (run s (Fire el ev1 # ins @ DocFire ty # ins' @ [Fire el ev2]))) =
       hold_notes (dispatched s) \<and>
     (idle s \<and> d < 500 \<longrightarrow>
        dispatched (run s [Fire el ev1, Wait d, DocFire ty, Wait w]) = dispatched s)"
proof -
  note G = cancel_general [OF assms]
  have "dispatched (run s [Fire el ev1, Wait d, DocFire ty, Wait w]) = dispatched s"
    if "idle s" "d < 500"
    using cancel_idle [OF assms(1,2,3) that(1) assms(5,6) that(2) assms(10,12), of w]
    by simp
  with G show ?thesis by simp
qed

theorem cancel_suppresses_hold_witness:
  "timer (run (run desktop
        [BindCall 3 single_click, Fire 3 (mouse_event ''mousedown'' 1), Wait 80,
         DocFire ''mouseup'', Fire 3 (mouse_event ''click'' 1), Wait 70])
      (Fire 3 (touch_event ''touchstart'' [(11, 12)]) # [Wait 200])) = Some 4 \<and>
   Timer 4 650 (HoldFire 11 12) \<in> set (timers (run (run desktop
        [BindCall 3 single_click, Fire 3 (mouse_event ''mousedown'' 1), Wait 80,
         DocFire ''mouseup'', Fire 3 (mouse_event ''click'' 1), Wait 70])
      (Fire 3 (touch_event ''touchstart'' [(11, 12)]) # [Wait 200]))) \<and>
   timer (run (run desktop
        [BindCall 3 single_click, Fire 3 (mouse_event ''mousedown'' 1), Wait 80,
         DocFire ''mouseup'', Fire 3 (mouse_event ''click'' 1), Wait 70])
      (Fire 3 (touch_event ''touchstart'' [(11, 12)]) # [Wait 200] @ [DocFire ''scroll''])) =
     None \<and>
   display (style (run (run desktop
        [BindCall 3 single_click, Fire 3 (mouse_event ''mousedown'' 1), Wait 80,
         DocFire ''mouseup'', Fire 3 (mouse_event ''click'' 1), Wait 70])
      (Fire 3 (touch_event ''touchstart'' [(11, 12)]) # [Wait 200] @ [DocFire ''scroll'']))) =
     Some ''none'' \<and>
   \<not> held (run (run desktop
        [BindCall 3 single_click, Fire 3 (mouse_event ''mousedown'' 1), Wait 80,
         DocFire ''mouseup'', Fire 3 (mouse_event ''click'' 1), Wait 70])
      (Fire 3 (touch_event ''touchstart'' [(11, 12)]) # [Wait 200] @ DocFire ''scroll'' #
       [Wait 1000])) \<and>
   hold_notes (dispatched (run (run desktop
        [BindCall 3 single_click, Fire 3 (mouse_event ''mousedown'' 1), Wait 80,
         DocFire ''mouseup'', Fire 3 (mouse_event ''click'' 1), Wait 70])
      (Fire 3 (touch_event ''touchstart'' [(11, 12)]) # [Wait 200] @ DocFire ''scroll'' #
       [Wait 1000] @ [Fire 3 (mouse_event ''click'' 1)]))) = [] \<and>
   dispatched (run (actionHandlerBind 3 single_click desktop)
      [Fire 3 (touch_event ''touchstart'' [(11, 12)]), Wait 300, DocFire ''scroll'',
       Wait 1000]) = []"
proof -
  let ?s = "run desktop
        [BindCall 3 single_click, Fire 3 (mouse_event ''mousedown'' 1), Wait 80,
         DocFire ''mouseup'', Fire 3 (mouse_event ''click'' 1), Wait 70]"
  let ?b = "actionHandlerBind 3 single_click desktop"
  let ?ts = "touch_event ''touchstart'' [(11, 12)]"
  have h: "wired ?s 3 single_click" "cancel_wired ?s" "holdTime ?s = 500"
    "\<not> cooldownStart ?s" "press_start ?s ?ts" "coords ?ts = Some (11, 12)"
    "\<forall>t\<in>set (timers ?s). \<not> is_hold (cb t)"
    "\<forall>i\<in>set [Wait 200]. is_passive i" "elapsed [Wait 200] < 500"
    "''scroll'' \<in> set cancel_actions"
    "\<forall>i\<in>set [Wait 1000]. is_passive i"
    "press_end ?s (mouse_event ''click'' 1) \<or> ev_type (mouse_event ''click'' 1) = ''keyup''"
    by code_simp+
  have v: "\<forall>i\<in>set [Wait 200]. is_wait i" "next_id ?s = 4" "now ?s = 150"
    "hold_notes (dispatched ?s) = []"
    by code_simp+
  have g: "wired ?b 3 single_click" "cancel_wired ?b" "holdTime ?b = 500"
    "\<not> cooldownStart ?b" "press_start ?b ?ts" "coords ?ts = Some (11, 12)"
    "\<forall>t\<in>set (timers ?b). \<not> is_hold (cb t)"
    "\<forall>i\<in>set [Wait 300]. is_passive i" "elapsed [Wait 300] < 500"
    "''scroll'' \<in> set cancel_actions"
    "\<forall>i\<in>set [Wait 1000]. is_passive i"
    "press_end ?b (mouse_event ''click'' 1) \<or> ev_type (mouse_event ''click'' 1) = ''keyup''"
    by code_simp+
  have u: "idle ?b" "(300::nat) < 500" "dispatched ?b = []"
    by code_simp+
  note a = cancel_suppresses_hold [OF h, where d = 0 and w = 0]
  note b = cancel_suppresses_hold [OF g, where d = 300 and w = 1000]
  from a v(1) have 1: "timer (run ?s (Fire 3 ?ts # [Wait 200])) = Some 4"
    "Timer 4 650 (HoldFire 11 12) \<in> set (timers (run ?s (Fire 3 ?ts # [Wait 200])))"
    by (simp_all add: v(2,3))
  from a have 2: "timer (run ?s (Fire 3 ?ts # [Wait 200] @ [DocFire ''scroll''])) = None"
    "display (style (run ?s (Fire 3 ?ts # [Wait 200] @ [DocFire ''scroll'']))) = Some ''none''"
    "\<not> held (run ?s (Fire 3 ?ts # [Wait 200] @ DocFire ''scroll'' # [Wait 1000]))"
    "hold_notes (dispatched (run ?s (Fire 3 ?ts # [Wait 200] @ DocFire ''scroll'' #
       [Wait 1000] @ [Fire 3 (mouse_event ''click'' 1)]))) = []"
    by (simp_all add: v(4))
  from b u have 3: "dispatched (run ?b
      [Fire 3 ?ts, Wait 300, DocFire ''scroll'', Wait 1000]) = []"
    by simp
  from 1 2 3 show ?thesis by simp
qed

text \<open>
  C5 fails as stated. A second press-start 150ms after the first, with no press-end between,
  arms a second hold timer, and \<^verbatim>\<open>timer\<close> refers to the second only. A \<^verbatim>\<open>scroll\<close> on the
  document 100ms later, while both are armed, clears the second and leaves the first in the
  queue: it fires at 500ms, the recognizer reaches the held state, and the click that follows
  dispatches \<^verbatim>\<open>hold\<close>.
\<close>

theorem cancel_suppresses_hold_counterexample:
  "count_timers is_hold (run (actionHandlerBind 3 single_click desktop)
      [Fire 3 (touch_event ''touchstart'' [(11, 12)]), Wait 150,
       Fire 3 (touch_event ''touchstart'' [(11, 12)]), Wait 100]) = 2 \<and>
   timer (run (actionHandlerBind 3 single_click desktop)
      [Fire 3 (touch_event ''touchstart'' [(11, 12)]), Wait 150,
       Fire 3 (touch_event ''touchstart'' [(11, 12)]), Wait 100, DocFire ''scroll'']) = None \<and>
   held (run (actionHandlerBind 3 single_click desktop)
      [Fire 3 (touch_event ''touchstart'' [(11, 12)]), Wait 150,
       Fire 3 (touch_event ''touchstart'' [(11, 12)]), Wait 100, DocFire ''scroll'',
       Wait 300]) \<and>
   dispatched (run (actionHandlerBind 3 single_click desktop)
      [Fire 3 (touch_event ''touchstart'' [(11, 12)]), Wait 150,
       Fire 3 (touch_event ''touchstart'' [(11, 12)]), Wait 100, DocFire ''scroll'',
       Wait 300, Fire 3 (mouse_event ''click'' 1)]) =
     [Notification 550 3 ''action'' [(''action'', ''hold'')]]"
  by code_simp

end
